theory Spec2Isabelle
  imports Complex_Main "HOL-Library.Word"
begin

unbundle bit_operations_syntax

section \<open>Constants\<close>

text \<open>
  The header \<^verbatim>\<open>astcenc_internal.h\<close> is not part of the sources at hand; the constants
  it declares are taken from the specification's list of constants.
\<close>

text \<open>Modelled from the spec: \<^verbatim>\<open>MAX_WEIGHTS_PER_BLOCK = 64\<close> (declared in the absent header).\<close>
definition MAX_WEIGHTS_PER_BLOCK :: int where
  "MAX_WEIGHTS_PER_BLOCK = 64"

text \<open>Modelled from the spec: \<^verbatim>\<open>MIN_WEIGHT_BITS_PER_BLOCK = 24\<close> (declared in the absent header).\<close>
definition MIN_WEIGHT_BITS_PER_BLOCK :: int where
  "MIN_WEIGHT_BITS_PER_BLOCK = 24"

text \<open>Modelled from the spec: \<^verbatim>\<open>MAX_WEIGHT_BITS_PER_BLOCK = 96\<close> (declared in the absent header).\<close>
definition MAX_WEIGHT_BITS_PER_BLOCK :: int where
  "MAX_WEIGHT_BITS_PER_BLOCK = 96"

text \<open>Modelled from the spec: \<^verbatim>\<open>MAX_WEIGHT_MODES = 2048\<close> (declared in the absent header).\<close>
definition MAX_WEIGHT_MODES :: int where
  "MAX_WEIGHT_MODES = 2048"

text \<open>Modelled from the spec: \<^verbatim>\<open>PARTITION_COUNT = 1024\<close> (declared in the absent header).\<close>
definition PARTITION_COUNT :: nat where
  "PARTITION_COUNT = 1024"

section \<open>Block mode decoding (\<^verbatim>\<open>astcenc_block_sizes.cpp\<close>)\<close>

text \<open>
  The C++ decoders return a flag and write their results through reference parameters.
  The model returns a record.  \<^verbatim>\<open>x_weights\<close> and \<^verbatim>\<open>y_weights\<close> are always written
  (first to 0); \<^verbatim>\<open>is_dual_plane\<close> and \<^verbatim>\<open>quant_mode\<close> are not written on the two early
  \<^verbatim>\<open>return false\<close> paths, which the model records as \<open>None\<close>.  The argument
  \<^verbatim>\<open>block_mode\<close> is a C \<^verbatim>\<open>int\<close>; the callers pass values in \<open>[0, 2048)\<close>, where no
  operation of the decoder overflows, so it is an \<open>int\<close> here.  The function
  \<^verbatim>\<open>get_ise_sequence_bitcount\<close> is defined outside these sources and is a parameter.
\<close>

record decoded_mode =
  valid :: bool
  x_weights :: int
  y_weights :: int
  is_dual_plane :: "bool option"
  quant_mode :: "int option"

record decoded_mode_3d = decoded_mode +
  z_weights :: int

definition decode_block_mode_2d :: "(int \<Rightarrow> int \<Rightarrow> int) \<Rightarrow> int \<Rightarrow> decoded_mode" where
  "decode_block_mode_2d get_ise_sequence_bitcount block_mode =
    (let base_quant_mode = drop_bit 4 block_mode AND 1;
         H = drop_bit 9 block_mode AND 1;
         D = drop_bit 10 block_mode AND 1;
         A = drop_bit 5 block_mode AND 3;
         early = \<lparr>valid = False, x_weights = 0, y_weights = 0,
                  is_dual_plane = None, quant_mode = None\<rparr>;
         branch =
           (if block_mode AND 3 \<noteq> 0 then
              (let base_quant_mode = base_quant_mode OR push_bit 1 (block_mode AND 3);
                   B = drop_bit 7 block_mode AND 3;
                   sel = drop_bit 2 block_mode AND 3
               in if sel = 0 then Some (B + 4, A + 2, D, H, base_quant_mode)
                  else if sel = 1 then Some (B + 8, A + 2, D, H, base_quant_mode)
                  else if sel = 2 then Some (A + 2, B + 8, D, H, base_quant_mode)
                  else (let B = B AND 1
                        in if block_mode AND 256 \<noteq> 0
                           then Some (B + 2, A + 2, D, H, base_quant_mode)
                           else Some (A + 2, B + 6, D, H, base_quant_mode)))
            else
              (let base_quant_mode = base_quant_mode OR push_bit 1 (drop_bit 2 block_mode AND 3)
               in if drop_bit 2 block_mode AND 3 = 0 then None
                  else
                    (let B = drop_bit 9 block_mode AND 3;
                         sel = drop_bit 7 block_mode AND 3
                     in if sel = 0 then Some (12, A + 2, D, H, base_quant_mode)
                        else if sel = 1 then Some (A + 2, 12, D, H, base_quant_mode)
                        else if sel = 2 then Some (A + 6, B + 6, 0, 0, base_quant_mode)
                        else (let sub = drop_bit 5 block_mode AND 3
                              in if sub = 0 then Some (6, 10, D, H, base_quant_mode)
                                 else if sub = 1 then Some (10, 6, D, H, base_quant_mode)
                                 else None))))
     in case branch of
          None \<Rightarrow> early
        | Some (xw, yw, D, H, base_quant_mode) \<Rightarrow>
            (let weight_count = xw * yw * (D + 1);
                 qm = (base_quant_mode - 2) + 6 * H;
                 weight_bits = get_ise_sequence_bitcount weight_count qm
             in \<lparr>valid = (weight_count \<le> MAX_WEIGHTS_PER_BLOCK \<and>
                          weight_bits \<ge> MIN_WEIGHT_BITS_PER_BLOCK \<and>
                          weight_bits \<le> MAX_WEIGHT_BITS_PER_BLOCK),
                 x_weights = xw, y_weights = yw,
                 is_dual_plane = Some (D \<noteq> 0), quant_mode = Some qm\<rparr>))"

definition decode_block_mode_3d :: "(int \<Rightarrow> int \<Rightarrow> int) \<Rightarrow> int \<Rightarrow> decoded_mode_3d" where
  "decode_block_mode_3d get_ise_sequence_bitcount block_mode =
    (let base_quant_mode = drop_bit 4 block_mode AND 1;
         H = drop_bit 9 block_mode AND 1;
         D = drop_bit 10 block_mode AND 1;
         A = drop_bit 5 block_mode AND 3;
         early = (\<lambda>xw yw zw. \<lparr>valid = False, x_weights = xw, y_weights = yw,
                  is_dual_plane = None, quant_mode = None, z_weights = zw\<rparr>);
         branch =
           (if block_mode AND 3 \<noteq> 0 then
              (let base_quant_mode = base_quant_mode OR push_bit 1 (block_mode AND 3);
                   B = drop_bit 7 block_mode AND 3;
                   C = drop_bit 2 block_mode AND 3
               in Inr (A + 2, B + 2, C + 2, D, H, base_quant_mode))
            else
              (let base_quant_mode = base_quant_mode OR push_bit 1 (drop_bit 2 block_mode AND 3)
               in if drop_bit 2 block_mode AND 3 = 0 then Inl (early 0 0 0)
                  else
                    (let B = drop_bit 9 block_mode AND 3;
                         sel = drop_bit 7 block_mode AND 3;
                         D = (if sel \<noteq> 3 then 0 else D);
                         H = (if sel \<noteq> 3 then 0 else H)
                     in if sel = 0 then Inr (6, B + 2, A + 2, D, H, base_quant_mode)
                        else if sel = 1 then Inr (A + 2, 6, B + 2, D, H, base_quant_mode)
                        else if sel = 2 then Inr (A + 2, B + 2, 6, D, H, base_quant_mode)
                        else (let sub = drop_bit 5 block_mode AND 3
                              in if sub = 0 then Inr (6, 2, 2, D, H, base_quant_mode)
                                 else if sub = 1 then Inr (2, 6, 2, D, H, base_quant_mode)
                                 else if sub = 2 then Inr (2, 2, 6, D, H, base_quant_mode)
                                 else Inl (early 2 2 2)))))
     in case branch of
          Inl e \<Rightarrow> e
        | Inr (xw, yw, zw, D, H, base_quant_mode) \<Rightarrow>
            (let weight_count = xw * yw * zw * (D + 1);
                 qm = (base_quant_mode - 2) + 6 * H;
                 weight_bits = get_ise_sequence_bitcount weight_count qm
             in \<lparr>valid = (weight_count \<le> MAX_WEIGHTS_PER_BLOCK \<and>
                          weight_bits \<ge> MIN_WEIGHT_BITS_PER_BLOCK \<and>
                          weight_bits \<le> MAX_WEIGHT_BITS_PER_BLOCK),
                 x_weights = xw, y_weights = yw,
                 is_dual_plane = Some (D \<noteq> 0), quant_mode = Some qm, z_weights = zw\<rparr>))"

text \<open>
  A stand-in for the external bit-count function, for closed instances only: it answers 32,
  the size of 16 weights of 2 bits each (the case of mode \<open>0x42\<close>), for every argument.
\<close>

definition isebits_sample :: "int \<Rightarrow> int \<Rightarrow> int" where
  "isebits_sample n q = 32"

section \<open>Simplex case selection of the 3D decimation table builder\<close>

text \<open>
  \<^verbatim>\<open>int cas = ((fs > ft) << 2) + ((ft > fp) << 1) + ((fs > fp));\<close>
\<close>

definition simplex_cas :: "int \<Rightarrow> int \<Rightarrow> int \<Rightarrow> int" where
  "simplex_cas fs ft fp =
     push_bit 2 (of_bool (fs > ft)) + push_bit 1 (of_bool (ft > fp)) + of_bool (fs > fp)"

text \<open>
  The \<^verbatim>\<open>switch (cas)\<close>: the two strides and the four weights.  The last line is the
  \<^verbatim>\<open>default\<close> branch, which repeats \<^verbatim>\<open>case 0\<close>.
\<close>

definition simplex_switch ::
  "int \<Rightarrow> int \<Rightarrow> int \<Rightarrow> int \<Rightarrow> int \<Rightarrow> int \<Rightarrow> int \<times> int \<times> int \<times> int \<times> int \<times> int" where
  "simplex_switch cas N NM fs ft fp =
     (if cas = 7 then (1, N, 16 - fs, fs - ft, ft - fp, fp)
      else if cas = 3 then (N, 1, 16 - ft, ft - fs, fs - fp, fp)
      else if cas = 5 then (1, NM, 16 - fs, fs - fp, fp - ft, ft)
      else if cas = 4 then (NM, 1, 16 - fp, fp - fs, fs - ft, ft)
      else if cas = 2 then (N, NM, 16 - ft, ft - fp, fp - fs, fs)
      else if cas = 0 then (NM, N, 16 - fp, fp - ft, ft - fs, fs)
      else (NM, N, 16 - fp, fp - ft, ft - fs, fs))"

section \<open>Decimation tables (\<^verbatim>\<open>astcenc_block_sizes.cpp\<close>)\<close>

text \<open>
  C arrays are modelled as total functions from the index to the cell, and a structure that
  the C++ fills through a reference is passed in with its previous content and returned
  updated; local arrays start from an arbitrary content that is a parameter.  A store into
  a \<^verbatim>\<open>uint8_t\<close> cell keeps the value modulo 256.  The \<^verbatim>\<open>float\<close> cells of the
  decimation table only ever hold \<open>0\<close>, an integer below 256 or such an integer times
  \<open>1/16\<close>, which \<^verbatim>\<open>float\<close> represents exactly; they are real numbers here.
\<close>

definition u8 :: "int \<Rightarrow> int" where
  "u8 v = v mod 256"

text \<open>Modelled from the spec: \<^verbatim>\<open>TEXEL_WEIGHT_SUM = 16\<close> (declared in the absent header).\<close>
definition TEXEL_WEIGHT_SUM :: int where
  "TEXEL_WEIGHT_SUM = 16"

text \<open>Modelled from the spec: \<^verbatim>\<open>MAX_TEXELS_PER_BLOCK = 216\<close> (declared in the absent header).\<close>
definition MAX_TEXELS_PER_BLOCK :: int where
  "MAX_TEXELS_PER_BLOCK = 216"

text \<open>
  \<^verbatim>\<open>decimation_table\<close>, with the fields the builders write.  The field
  \<^verbatim>\<open>texel_count\<close> is \<open>dt_texel_count\<close> here, the name \<open>texel_count\<close> being the field
  of the block size descriptor.  Two-dimensional arrays are indexed as in the source:
  \<^verbatim>\<open>texel_weights_4t[slot][texel]\<close>, \<^verbatim>\<open>weight_texel[t][weight]\<close>,
  \<^verbatim>\<open>texel_weights_texel[weight][t][slot]\<close>.
\<close>

record decimation_table =
  dt_texel_count :: int
  weight_count :: int
  weight_x :: int
  weight_y :: int
  weight_z :: int
  texel_weight_count :: "int \<Rightarrow> int"
  texel_weights_4t :: "int \<Rightarrow> int \<Rightarrow> int"
  texel_weights_int_4t :: "int \<Rightarrow> int \<Rightarrow> int"
  texel_weights_float_4t :: "int \<Rightarrow> int \<Rightarrow> real"
  weight_texel_count :: "int \<Rightarrow> int"
  weight_texel :: "int \<Rightarrow> int \<Rightarrow> int"
  weights_flt :: "int \<Rightarrow> int \<Rightarrow> real"
  texel_weights_texel :: "int \<Rightarrow> int \<Rightarrow> int \<Rightarrow> int"
  texel_weights_float_texel :: "int \<Rightarrow> int \<Rightarrow> int \<Rightarrow> real"

text \<open>The local arrays of the two builders.\<close>

record decimation_scratch =
  weight_count_of_texel :: "int \<Rightarrow> int"
  grid_weights_of_texel :: "int \<Rightarrow> int \<Rightarrow> int"
  weights_of_texel :: "int \<Rightarrow> int \<Rightarrow> int"
  texel_count_of_weight :: "int \<Rightarrow> int"
  max_texel_count_of_weight :: int
  texels_of_weight :: "int \<Rightarrow> int \<Rightarrow> int"
  texel_weights_of_weight :: "int \<Rightarrow> int \<Rightarrow> int"

text \<open>
  The body of the loop \<^verbatim>\<open>for (int i = 0; i < 4; i++) if (weight[i] != 0) { ... }\<close>, which
  is the same text in both builders, for one pair \<open>(qweight[i], weight[i])\<close>.
\<close>

definition store_weight :: "int \<Rightarrow> int \<times> int \<Rightarrow> decimation_scratch \<Rightarrow> decimation_scratch" where
  "store_weight texel qw s =
     (case qw of (q, w) \<Rightarrow>
        if w \<noteq> 0 then
          (let n = weight_count_of_texel s texel;
               s = s\<lparr>grid_weights_of_texel :=
                       (grid_weights_of_texel s)(texel := (grid_weights_of_texel s texel)(n := u8 q))\<rparr>;
               s = s\<lparr>weights_of_texel :=
                       (weights_of_texel s)(texel := (weights_of_texel s texel)(n := u8 w))\<rparr>;
               s = s\<lparr>weight_count_of_texel := (weight_count_of_texel s)(texel := u8 (n + 1))\<rparr>;
               m = texel_count_of_weight s q;
               s = s\<lparr>texels_of_weight :=
                       (texels_of_weight s)(q := (texels_of_weight s q)(m := u8 texel))\<rparr>;
               s = s\<lparr>texel_weights_of_weight :=
                       (texel_weights_of_weight s)(q := (texel_weights_of_weight s q)(m := w))\<rparr>;
               s = s\<lparr>texel_count_of_weight := (texel_count_of_weight s)(q := u8 (m + 1))\<rparr>
           in s\<lparr>max_texel_count_of_weight :=
                   max (max_texel_count_of_weight s) (texel_count_of_weight s q)\<rparr>)
        else s)"

text \<open>The two loops that clear the counters, and the initial value of the maximum.\<close>

definition clear_counts :: "int \<Rightarrow> int \<Rightarrow> decimation_scratch \<Rightarrow> decimation_scratch" where
  "clear_counts texels_per_block weights_per_block s0 =
     (let s = s0\<lparr>max_texel_count_of_weight := 0\<rparr>;
          s = fold (\<lambda>i s. s\<lparr>texel_count_of_weight := (texel_count_of_weight s)(i := 0)\<rparr>)
                   [0..weights_per_block - 1] s
      in fold (\<lambda>i s. s\<lparr>weight_count_of_texel := (weight_count_of_texel s)(i := 0)\<rparr>)
              [0..texels_per_block - 1] s)"

text \<open>
  The fixed-point grid coordinate of a texel coordinate.  The division is the C division
  of non-negative operands (the builders are called with at least two texels per axis; with one
  the C++ divides by zero).
\<close>

definition grid_coord :: "int \<Rightarrow> int \<Rightarrow> int \<Rightarrow> int" where
  "grid_coord texels weights x =
     drop_bit 6 (((1024 + texels div 2) div (texels - 1)) * x * (weights - 1) + 32)"

text \<open>
  The four pairs \<open>(qweight[i], weight[i])\<close> of the texel \<open>(x, y)\<close> in the 2D builder.
\<close>

definition texel_weights_2d :: "int \<Rightarrow> int \<Rightarrow> int \<Rightarrow> int \<Rightarrow> int \<Rightarrow> int \<Rightarrow> (int \<times> int) list" where
  "texel_weights_2d x_texels y_texels x_weights' y_weights' x y =
     (let x_weight = grid_coord x_texels x_weights' x;
          y_weight = grid_coord y_texels y_weights' y;
          x_weight_frac = x_weight AND 0xF;
          y_weight_frac = y_weight AND 0xF;
          x_weight_int = drop_bit 4 x_weight;
          y_weight_int = drop_bit 4 y_weight;
          qweight0 = x_weight_int + y_weight_int * x_weights';
          qweight1 = qweight0 + 1;
          qweight2 = qweight0 + x_weights';
          qweight3 = qweight2 + 1;
          prod = x_weight_frac * y_weight_frac;
          weight3 = drop_bit 4 (prod + 8);
          weight1 = x_weight_frac - weight3;
          weight2 = y_weight_frac - weight3;
          weight0 = 16 - x_weight_frac - y_weight_frac + weight3
      in [(qweight0, weight0), (qweight1, weight1), (qweight2, weight2), (qweight3, weight3)])"

text \<open>The four pairs of the texel \<open>(x, y, z)\<close> in the 3D builder.\<close>

definition texel_weights_3d ::
  "int \<Rightarrow> int \<Rightarrow> int \<Rightarrow> int \<Rightarrow> int \<Rightarrow> int \<Rightarrow> int \<Rightarrow> int \<Rightarrow> int \<Rightarrow> (int \<times> int) list" where
  "texel_weights_3d x_texels y_texels z_texels x_weights' y_weights' z_weights' x y z =
     (let x_weight = grid_coord x_texels x_weights' x;
          y_weight = grid_coord y_texels y_weights' y;
          z_weight = grid_coord z_texels z_weights' z;
          x_weight_frac = x_weight AND 0xF;
          y_weight_frac = y_weight AND 0xF;
          z_weight_frac = z_weight AND 0xF;
          x_weight_int = drop_bit 4 x_weight;
          y_weight_int = drop_bit 4 y_weight;
          z_weight_int = drop_bit 4 z_weight;
          qweight0 = (z_weight_int * y_weights' + y_weight_int) * x_weights' + x_weight_int;
          qweight3 = ((z_weight_int + 1) * y_weights' + (y_weight_int + 1)) * x_weights'
                       + (x_weight_int + 1);
          fs = x_weight_frac;
          ft = y_weight_frac;
          fp = z_weight_frac;
          cas = simplex_cas fs ft fp;
          N = x_weights';
          NM = x_weights' * y_weights';
          (s1, s2, w0, w1, w2, w3) = simplex_switch cas N NM fs ft fp;
          qweight1 = qweight0 + s1;
          qweight2 = qweight1 + s2
      in [(qweight0, w0), (qweight1, w1), (qweight2, w2), (qweight3, w3)])"

text \<open>The texel loops of the two builders.\<close>

definition accumulate_2d ::
  "int \<Rightarrow> int \<Rightarrow> int \<Rightarrow> int \<Rightarrow> decimation_scratch \<Rightarrow> decimation_scratch" where
  "accumulate_2d x_texels y_texels x_weights' y_weights' s =
     fold (\<lambda>y. fold (\<lambda>x s.
              let texel = y * x_texels + x
              in fold (store_weight texel)
                      (texel_weights_2d x_texels y_texels x_weights' y_weights' x y) s)
            [0..x_texels - 1])
          [0..y_texels - 1] s"

definition accumulate_3d ::
  "int \<Rightarrow> int \<Rightarrow> int \<Rightarrow> int \<Rightarrow> int \<Rightarrow> int \<Rightarrow> decimation_scratch \<Rightarrow> decimation_scratch" where
  "accumulate_3d x_texels y_texels z_texels x_weights' y_weights' z_weights' s =
     fold (\<lambda>z. fold (\<lambda>y. fold (\<lambda>x s.
              let texel = (z * y_texels + y) * x_texels + x
              in fold (store_weight texel)
                      (texel_weights_3d x_texels y_texels z_texels
                         x_weights' y_weights' z_weights' x y z) s)
            [0..x_texels - 1])
          [0..y_texels - 1])
        [0..z_texels - 1] s"

text \<open>
  The loop over the texels that fills the transposed per-texel arrays.  The 2D builder
  writes the active slots and then clears the others; the 3D builder clears all four slots
  and then writes the active ones.
\<close>

definition set_texel_slot :: "int \<Rightarrow> int \<Rightarrow> int \<Rightarrow> real \<Rightarrow> int \<Rightarrow> decimation_table \<Rightarrow> decimation_table" where
  "set_texel_slot j i wi wflt g dt =
     dt\<lparr>texel_weights_int_4t := (texel_weights_int_4t dt)(j := (texel_weights_int_4t dt j)(i := wi)),
        texel_weights_float_4t :=
          (texel_weights_float_4t dt)(j := (texel_weights_float_4t dt j)(i := wflt)),
        texel_weights_4t := (texel_weights_4t dt)(j := (texel_weights_4t dt j)(i := g))\<rparr>"

definition copy_texel_slot :: "decimation_scratch \<Rightarrow> int \<Rightarrow> int \<Rightarrow> decimation_table \<Rightarrow> decimation_table" where
  "copy_texel_slot s i j dt =
     set_texel_slot j i (weights_of_texel s i j)
       (real_of_int (weights_of_texel s i j) * (1 / real_of_int TEXEL_WEIGHT_SUM))
       (grid_weights_of_texel s i j) dt"

definition fill_texel_2d :: "decimation_scratch \<Rightarrow> int \<Rightarrow> decimation_table \<Rightarrow> decimation_table" where
  "fill_texel_2d s i dt0 =
     (let dt = dt0\<lparr>texel_weight_count := (texel_weight_count dt0)(i := weight_count_of_texel s i)\<rparr>;
          dt = fold (copy_texel_slot s i) [0..weight_count_of_texel s i - 1] dt
      in fold (\<lambda>j. set_texel_slot j i 0 0 0) [weight_count_of_texel s i..3] dt)"

definition fill_texel_3d :: "decimation_scratch \<Rightarrow> int \<Rightarrow> decimation_table \<Rightarrow> decimation_table" where
  "fill_texel_3d s i dt0 =
     (let dt = dt0\<lparr>texel_weight_count := (texel_weight_count dt0)(i := weight_count_of_texel s i)\<rparr>;
          dt = fold (\<lambda>j. set_texel_slot j i 0 0 0) [0..3] dt
      in fold (copy_texel_slot s i) [0..weight_count_of_texel s i - 1] dt)"

text \<open>
  The loop over the weights, the same text in both builders.  \<open>gather_slot\<close> is the body of
  the loop over \<open>k\<close>, with state \<open>(swap_idx, dt)\<close>; \<open>swap_slots\<close> is the exchange of slot 0
  and slot \<open>swap_idx\<close>; \<open>fill_weight_texel\<close> is the body of the loop over the texels \<open>j\<close>
  of the weight \<open>i\<close>.
\<close>

definition gather_slot :: "int \<Rightarrow> int \<Rightarrow> int \<Rightarrow> int \<Rightarrow> int \<times> decimation_table \<Rightarrow> int \<times> decimation_table" where
  "gather_slot i j texel k st =
     (case st of (swap_idx, dt) \<Rightarrow>
        (let dttw = u8 (texel_weights_4t dt k texel);
             dttwf = texel_weights_float_4t dt k texel;
             swap_idx = (if dttw = i \<and> dttwf \<noteq> 0 then k else swap_idx)
         in (swap_idx,
             dt\<lparr>texel_weights_texel :=
                   (texel_weights_texel dt)(i := (texel_weights_texel dt i)(j :=
                      (texel_weights_texel dt i j)(k := dttw))),
                texel_weights_float_texel :=
                   (texel_weights_float_texel dt)(i := (texel_weights_float_texel dt i)(j :=
                      (texel_weights_float_texel dt i j)(k := dttwf)))\<rparr>)))"

definition swap_slots :: "int \<Rightarrow> int \<Rightarrow> int \<Rightarrow> decimation_table \<Rightarrow> decimation_table" where
  "swap_slots i j swap_idx dt =
     (let vi = u8 (texel_weights_texel dt i j 0);
          vf = texel_weights_float_texel dt i j 0;
          dt = dt\<lparr>texel_weights_texel :=
                     (texel_weights_texel dt)(i := (texel_weights_texel dt i)(j :=
                        (texel_weights_texel dt i j)(0 := texel_weights_texel dt i j swap_idx)))\<rparr>;
          dt = dt\<lparr>texel_weights_float_texel :=
                     (texel_weights_float_texel dt)(i := (texel_weights_float_texel dt i)(j :=
                        (texel_weights_float_texel dt i j)(0 := texel_weights_float_texel dt i j swap_idx)))\<rparr>;
          dt = dt\<lparr>texel_weights_texel :=
                     (texel_weights_texel dt)(i := (texel_weights_texel dt i)(j :=
                        (texel_weights_texel dt i j)(swap_idx := vi)))\<rparr>
      in dt\<lparr>texel_weights_float_texel :=
                (texel_weights_float_texel dt)(i := (texel_weights_float_texel dt i)(j :=
                   (texel_weights_float_texel dt i j)(swap_idx := vf)))\<rparr>)"

definition fill_weight_texel :: "decimation_scratch \<Rightarrow> int \<Rightarrow> int \<Rightarrow> decimation_table \<Rightarrow> decimation_table" where
  "fill_weight_texel s i j dt0 =
     (let texel = texels_of_weight s i j;
          dt = dt0\<lparr>weight_texel := (weight_texel dt0)(j := (weight_texel dt0 j)(i := texel)),
                   weights_flt := (weights_flt dt0)(j := (weights_flt dt0 j)(i :=
                                     real_of_int (texel_weights_of_weight s i j)))\<rparr>;
          (swap_idx, dt) = fold (gather_slot i j texel) [0..3] (-1, dt)
      in if swap_idx \<noteq> 0 then swap_slots i j swap_idx dt else dt)"

definition fill_weight :: "decimation_scratch \<Rightarrow> int \<Rightarrow> decimation_table \<Rightarrow> decimation_table" where
  "fill_weight s i dt0 =
     (let texel_count_wt = texel_count_of_weight s i;
          dt = dt0\<lparr>weight_texel_count := (weight_texel_count dt0)(i := u8 texel_count_wt)\<rparr>;
          dt = fold (fill_weight_texel s i) [0..texel_count_wt - 1] dt;
          last_texel = weight_texel dt (texel_count_wt - 1) i
      in fold (\<lambda>j dt. dt\<lparr>weight_texel := (weight_texel dt)(j := (weight_texel dt j)(i := last_texel)),
                          weights_flt := (weights_flt dt)(j := (weights_flt dt j)(i := 0))\<rparr>)
              [texel_count_wt..max_texel_count_of_weight s - 1] dt)"

text \<open>
  The two tails after the last texel and after the last weight, up to the SIMD multiple.
  \<^verbatim>\<open>round_up_to_simd_multiple_vla\<close> is declared in the absent header and is the parameter
  \<open>round_up\<close>.
\<close>

definition fill_texel_tail :: "(int \<Rightarrow> int) \<Rightarrow> int \<Rightarrow> decimation_table \<Rightarrow> decimation_table" where
  "fill_texel_tail round_up texels_per_block dt =
     (let texels_per_block_simd = round_up texels_per_block
      in fold (\<lambda>i dt.
                 fold (\<lambda>j dt.
                    dt\<lparr>texel_weights_float_4t :=
                          (texel_weights_float_4t dt)(j := (texel_weights_float_4t dt j)(i := 0)),
                       texel_weights_4t := (texel_weights_4t dt)(j := (texel_weights_4t dt j)(i := 0)),
                       texel_weights_int_4t :=
                          (texel_weights_int_4t dt)(j := (texel_weights_int_4t dt j)(i := 0))\<rparr>)
                  [0..3]
                  (dt\<lparr>texel_weight_count := (texel_weight_count dt)(i := 0)\<rparr>))
              [texels_per_block..texels_per_block_simd - 1] dt)"

definition fill_weight_tail ::
  "(int \<Rightarrow> int) \<Rightarrow> decimation_scratch \<Rightarrow> int \<Rightarrow> decimation_table \<Rightarrow> decimation_table" where
  "fill_weight_tail round_up s weights_per_block dt0 =
     (let last_texel_count_wt = texel_count_of_weight s (weights_per_block - 1);
          last_texel = weight_texel dt0 (last_texel_count_wt - 1) (weights_per_block - 1);
          weights_per_block_simd = round_up weights_per_block
      in fold (\<lambda>i dt.
                 fold (\<lambda>j dt.
                    dt\<lparr>weight_texel := (weight_texel dt)(j := (weight_texel dt j)(i := last_texel)),
                       weights_flt := (weights_flt dt)(j := (weights_flt dt j)(i := 0))\<rparr>)
                  [0..max_texel_count_of_weight s - 1]
                  (dt\<lparr>weight_texel_count := (weight_texel_count dt)(i := 0)\<rparr>))
              [weights_per_block..weights_per_block_simd - 1] dt0)"

text \<open>
  The two builders.  \<open>s0\<close> is the arbitrary initial content of the local arrays and \<open>dt0\<close>
  the previous content of the table.
\<close>

definition initialize_decimation_table_2d ::
  "(int \<Rightarrow> int) \<Rightarrow> int \<Rightarrow> int \<Rightarrow> int \<Rightarrow> int \<Rightarrow> decimation_scratch \<Rightarrow> decimation_table
     \<Rightarrow> decimation_table" where
  "initialize_decimation_table_2d round_up x_texels y_texels x_weights' y_weights' s0 dt0 =
     (let texels_per_block = x_texels * y_texels;
          weights_per_block = x_weights' * y_weights';
          s = clear_counts texels_per_block weights_per_block s0;
          s = accumulate_2d x_texels y_texels x_weights' y_weights' s;
          dt = fold (fill_texel_2d s) [0..texels_per_block - 1] dt0;
          dt = fold (fill_weight s) [0..weights_per_block - 1] dt;
          dt = fill_texel_tail round_up texels_per_block dt;
          dt = fill_weight_tail round_up s weights_per_block dt
      in dt\<lparr>dt_texel_count := texels_per_block, weight_count := weights_per_block,
            weight_x := x_weights', weight_y := y_weights', weight_z := 1\<rparr>)"

definition initialize_decimation_table_3d ::
  "(int \<Rightarrow> int) \<Rightarrow> int \<Rightarrow> int \<Rightarrow> int \<Rightarrow> int \<Rightarrow> int \<Rightarrow> int \<Rightarrow> decimation_scratch \<Rightarrow> decimation_table
     \<Rightarrow> decimation_table" where
  "initialize_decimation_table_3d round_up x_texels y_texels z_texels
       x_weights' y_weights' z_weights' s0 dt0 =
     (let texels_per_block = x_texels * y_texels * z_texels;
          weights_per_block = x_weights' * y_weights' * z_weights';
          s = clear_counts texels_per_block weights_per_block s0;
          s = accumulate_3d x_texels y_texels z_texels x_weights' y_weights' z_weights' s;
          dt = fold (fill_texel_3d s) [0..texels_per_block - 1] dt0;
          dt = fold (fill_weight s) [0..weights_per_block - 1] dt;
          dt = fill_texel_tail round_up texels_per_block dt;
          dt = fill_weight_tail round_up s weights_per_block dt
      in dt\<lparr>dt_texel_count := texels_per_block, weight_count := weights_per_block,
            weight_x := x_weights', weight_y := y_weights', weight_z := z_weights'\<rparr>)"

section \<open>Partition tables (\<^verbatim>\<open>astcenc_partition_tables.cpp\<close>)\<close>

text \<open>
  Arrays and reference parameters are modelled as for the decimation tables.
  \<^verbatim>\<open>partition_info\<close>, with the fields the code writes:
\<close>

record partition_info =
  partition_count :: int
  partition_of_texel :: "int \<Rightarrow> int"
  texels_of_partition :: "int \<Rightarrow> int \<Rightarrow> int"
  partition_texel_count :: "int \<Rightarrow> int"
  coverage_bitmaps :: "int \<Rightarrow> 64 word"

text \<open>The fields of \<^verbatim>\<open>block_size_descriptor\<close> that the partition code reads and writes.\<close>

record block_size_descriptor =
  xdim :: int
  ydim :: int
  zdim :: int
  texel_count :: int
  kmeans_texel_count :: int
  kmeans_texels :: "int \<Rightarrow> int"
  partitions :: "int \<Rightarrow> partition_info"

text \<open>
  \<^verbatim>\<open>generate_canonical_partitioning\<close>: \<open>bit_pattern\<close> is the whole array
  \<^verbatim>\<open>bit_patterns\<close> of the caller and \<open>base\<close> the offset of the seven words to fill.
  The loop state is \<open>(mapped_index, map_weight_count, bit_pattern)\<close>.
\<close>

definition canonical_step ::
  "(int \<Rightarrow> int) \<Rightarrow> int \<Rightarrow> int \<Rightarrow> (int \<Rightarrow> int) \<times> int \<times> (int \<Rightarrow> 64 word)
     \<Rightarrow> (int \<Rightarrow> int) \<times> int \<times> (int \<Rightarrow> 64 word)" where
  "canonical_step pot base i st =
     (case st of (mapped_index, map_weight_count, bit_pattern) \<Rightarrow>
        (let index = pot i;
             (mapped_index, map_weight_count) =
                (if mapped_index index = -1
                 then (mapped_index(index := map_weight_count), map_weight_count + 1)
                 else (mapped_index, map_weight_count));
             xlat_index = (word_of_int (mapped_index index) :: 64 word);
             cell = base + drop_bit 5 i
         in (mapped_index, map_weight_count,
             bit_pattern(cell := bit_pattern cell OR
                push_bit (nat (2 * (i AND 0x1F))) xlat_index))))"

definition generate_canonical_partitioning ::
  "int \<Rightarrow> (int \<Rightarrow> int) \<Rightarrow> int \<Rightarrow> (int \<Rightarrow> 64 word) \<Rightarrow> (int \<Rightarrow> 64 word)" where
  "generate_canonical_partitioning texel_count' pot base bit_pattern =
     (let bit_pattern = fold (\<lambda>i bp. bp(base + i := 0)) [0..6] bit_pattern;
          mapped_index = fold (\<lambda>i m. m(i := -1)) [0..3] (\<lambda>_. 0)
      in snd (snd (fold (canonical_step pot base) [0..texel_count' - 1]
                     (mapped_index, 0, bit_pattern))))"

definition compare_canonical_partitionings ::
  "(int \<Rightarrow> 64 word) \<Rightarrow> int \<Rightarrow> int \<Rightarrow> bool" where
  "compare_canonical_partitionings bit_patterns part1 part2 =
     (bit_patterns (part1 + 0) = bit_patterns (part2 + 0) \<and>
      bit_patterns (part1 + 1) = bit_patterns (part2 + 1) \<and>
      bit_patterns (part1 + 2) = bit_patterns (part2 + 2) \<and>
      bit_patterns (part1 + 3) = bit_patterns (part2 + 3) \<and>
      bit_patterns (part1 + 4) = bit_patterns (part2 + 4) \<and>
      bit_patterns (part1 + 5) = bit_patterns (part2 + 5) \<and>
      bit_patterns (part1 + 6) = bit_patterns (part2 + 6))"

text \<open>
  The inner loop of \<^verbatim>\<open>remove_duplicate_partitionings\<close> over \<open>j < i\<close>, which stops at
  the first match: the result says whether \<^verbatim>\<open>pt[i].partition_count = 0\<close> was executed.
\<close>

fun duplicate_scan :: "(int \<Rightarrow> 64 word) \<Rightarrow> int \<Rightarrow> int list \<Rightarrow> bool" where
  "duplicate_scan bit_patterns i [] = False"
| "duplicate_scan bit_patterns i (j # js) =
     (if compare_canonical_partitionings bit_patterns (7 * i) (7 * j) then True
      else duplicate_scan bit_patterns i js)"

text \<open>
  \<^verbatim>\<open>remove_duplicate_partitionings\<close>: \<open>pt\<close> is the array \<^verbatim>\<open>bsd.partitions\<close> and
  \<open>tab\<close> the offset of the table in it.  The local array \<^verbatim>\<open>bit_patterns\<close> starts with
  arbitrary content \<open>bp0\<close>.
\<close>

definition dedup_step :: "(int \<Rightarrow> 64 word) \<Rightarrow> int \<Rightarrow> int \<Rightarrow> (int \<Rightarrow> partition_info) \<Rightarrow> (int \<Rightarrow> partition_info)" where
  "dedup_step bit_patterns tab i pt =
     (if duplicate_scan bit_patterns i [0..i - 1]
      then pt(tab + i := (pt (tab + i))\<lparr>partition_count := 0\<rparr>)
      else pt)"

definition remove_duplicate_partitionings ::
  "(int \<Rightarrow> 64 word) \<Rightarrow> int \<Rightarrow> int \<Rightarrow> (int \<Rightarrow> partition_info) \<Rightarrow> (int \<Rightarrow> partition_info)" where
  "remove_duplicate_partitionings bp0 texel_count' tab pt =
     (let bit_patterns =
            fold (\<lambda>i bp. generate_canonical_partitioning texel_count'
                            (partition_of_texel (pt (tab + i))) (i * 7) bp)
                 [0..int PARTITION_COUNT - 1] bp0
      in fold (dedup_step bit_patterns tab) [0..int PARTITION_COUNT - 1] pt)"

definition hash52 :: "32 word \<Rightarrow> 32 word" where
  "hash52 inp0 =
     (let inp = inp0 XOR drop_bit 15 inp0;
          inp = inp * 0xEEDE0891;
          inp = inp XOR drop_bit 5 inp;
          inp = inp + push_bit 16 inp;
          inp = inp XOR drop_bit 7 inp;
          inp = inp XOR drop_bit 3 inp;
          inp = inp XOR push_bit 6 inp;
          inp = inp XOR drop_bit 17 inp
      in inp)"

text \<open>
  \<^verbatim>\<open>select_partition\<close>.  The \<^verbatim>\<open>int\<close> arguments are integers here; the sums
  \<open>a\<close>..\<open>d\<close> are formed in \<^verbatim>\<open>uint32_t\<close> (the \<^verbatim>\<open>int\<close> part converted modulo \<open>2^32\<close>),
  converted back to \<^verbatim>\<open>int\<close> and masked.  The twelve seeds are \<^verbatim>\<open>uint8_t\<close>.
\<close>

definition select_partition :: "int \<Rightarrow> int \<Rightarrow> int \<Rightarrow> int \<Rightarrow> int \<Rightarrow> bool \<Rightarrow> int" where
  "select_partition seed0 x0 y0 z0 partition_count' small_block =
     (let x = (if small_block then push_bit 1 x0 else x0);
          y = (if small_block then push_bit 1 y0 else y0);
          z = (if small_block then push_bit 1 z0 else z0);
          seed = seed0 + (partition_count' - 1) * 1024;
          rnum = hash52 (word_of_int seed);
          seed1 = (ucast (rnum AND 0xF) :: 8 word);
          seed2 = (ucast (drop_bit 4 rnum AND 0xF) :: 8 word);
          seed3 = (ucast (drop_bit 8 rnum AND 0xF) :: 8 word);
          seed4 = (ucast (drop_bit 12 rnum AND 0xF) :: 8 word);
          seed5 = (ucast (drop_bit 16 rnum AND 0xF) :: 8 word);
          seed6 = (ucast (drop_bit 20 rnum AND 0xF) :: 8 word);
          seed7 = (ucast (drop_bit 24 rnum AND 0xF) :: 8 word);
          seed8 = (ucast (drop_bit 28 rnum AND 0xF) :: 8 word);
          seed9 = (ucast (drop_bit 18 rnum AND 0xF) :: 8 word);
          seed10 = (ucast (drop_bit 22 rnum AND 0xF) :: 8 word);
          seed11 = (ucast (drop_bit 26 rnum AND 0xF) :: 8 word);
          seed12 = (ucast ((drop_bit 30 rnum OR push_bit 2 rnum) AND 0xF) :: 8 word);
          seed1 = seed1 * seed1;
          seed2 = seed2 * seed2;
          seed3 = seed3 * seed3;
          seed4 = seed4 * seed4;
          seed5 = seed5 * seed5;
          seed6 = seed6 * seed6;
          seed7 = seed7 * seed7;
          seed8 = seed8 * seed8;
          seed9 = seed9 * seed9;
          seed10 = seed10 * seed10;
          seed11 = seed11 * seed11;
          seed12 = seed12 * seed12;
          (sh1, sh2) =
             (if seed AND 1 \<noteq> 0
              then (if seed AND 2 \<noteq> 0 then 4 else 5, if partition_count' = 3 then 6 else 5)
              else (if partition_count' = 3 then 6 else 5, if seed AND 2 \<noteq> 0 then 4 else 5));
          sh3 = (if seed AND 0x10 \<noteq> 0 then sh1 else sh2 :: nat);
          seed1 = drop_bit sh1 seed1;
          seed2 = drop_bit sh2 seed2;
          seed3 = drop_bit sh1 seed3;
          seed4 = drop_bit sh2 seed4;
          seed5 = drop_bit sh1 seed5;
          seed6 = drop_bit sh2 seed6;
          seed7 = drop_bit sh1 seed7;
          seed8 = drop_bit sh2 seed8;
          seed9 = drop_bit sh3 seed9;
          seed10 = drop_bit sh3 seed10;
          seed11 = drop_bit sh3 seed11;
          seed12 = drop_bit sh3 seed12;
          a = sint (word_of_int (uint seed1 * x + uint seed2 * y + uint seed11 * z)
                     + drop_bit 14 rnum);
          b = sint (word_of_int (uint seed3 * x + uint seed4 * y + uint seed12 * z)
                     + drop_bit 10 rnum);
          c = sint (word_of_int (uint seed5 * x + uint seed6 * y + uint seed9 * z)
                     + drop_bit 6 rnum);
          d = sint (word_of_int (uint seed7 * x + uint seed8 * y + uint seed10 * z)
                     + drop_bit 2 rnum);
          a = a AND 0x3F;
          b = b AND 0x3F;
          c = c AND 0x3F;
          d = d AND 0x3F;
          d = (if partition_count' \<le> 3 then 0 else d);
          c = (if partition_count' \<le> 2 then 0 else c);
          b = (if partition_count' \<le> 1 then 0 else b)
      in if a \<ge> b \<and> a \<ge> c \<and> a \<ge> d then 0
         else if b \<ge> c \<and> b \<ge> d then 1
         else if c \<ge> d then 2
         else 3)"

text \<open>
  \<^verbatim>\<open>generate_one_partition_info_entry\<close>.  The state of the texel loop is
  \<open>(texel_idx, ptr, counts, pinfo)\<close>, where \<open>ptr\<close> is the offset of the running pointer
  \<^verbatim>\<open>partition_of_texel\<close> into \<^verbatim>\<open>pi.partition_of_texel\<close>.  The helper
  \<^verbatim>\<open>round_up_to_simd_multiple_vla\<close> is declared in the absent header and is the parameter
  \<open>round_up\<close>.
\<close>

definition assign_texel ::
  "int \<Rightarrow> int \<Rightarrow> bool \<Rightarrow> int \<Rightarrow> int \<Rightarrow> int \<Rightarrow>
   int \<times> int \<times> (int \<Rightarrow> int) \<times> partition_info \<Rightarrow> int \<times> int \<times> (int \<Rightarrow> int) \<times> partition_info" where
  "assign_texel partition_index partition_count' small_block z y x st =
     (case st of (texel_idx, ptr, counts, pinfo) \<Rightarrow>
        (let part = u8 (select_partition partition_index x y z partition_count' small_block);
             pinfo = pinfo\<lparr>texels_of_partition :=
                       (texels_of_partition pinfo)(part :=
                          (texels_of_partition pinfo part)(counts part := texel_idx))\<rparr>;
             counts = counts(part := counts part + 1);
             texel_idx = texel_idx + 1;
             pinfo = pinfo\<lparr>partition_of_texel := (partition_of_texel pinfo)(ptr := part)\<rparr>;
             ptr = ptr + 1
         in (texel_idx, ptr, counts, pinfo)))"

definition fill_partition_tail ::
  "(int \<Rightarrow> int) \<Rightarrow> (int \<Rightarrow> int) \<Rightarrow> int \<Rightarrow> partition_info \<Rightarrow> partition_info" where
  "fill_partition_tail round_up counts i pinfo =
     (let ptex_count = counts i;
          ptex_count_simd = round_up ptex_count
      in fold (\<lambda>j pinfo. pinfo\<lparr>texels_of_partition :=
                          (texels_of_partition pinfo)(i :=
                             (texels_of_partition pinfo i)(j :=
                                texels_of_partition pinfo i (ptex_count - 1)))\<rparr>)
              [ptex_count..ptex_count_simd - 1] pinfo)"

definition generate_one_partition_info_entry ::
  "(int \<Rightarrow> int) \<Rightarrow> block_size_descriptor \<Rightarrow> int \<Rightarrow> int \<Rightarrow> partition_info \<Rightarrow> partition_info" where
  "generate_one_partition_info_entry round_up bsd partition_count' partition_index pinfo0 =
     (let texels_per_block = texel_count bsd;
          small_block = (texels_per_block < 32);
          (texel_idx, ptr, counts, pinfo) =
             fold (\<lambda>z. fold (\<lambda>y. fold (assign_texel partition_index partition_count' small_block z y)
                                      [0..xdim bsd - 1])
                             [0..ydim bsd - 1])
                  [0..zdim bsd - 1] (0, 0, (\<lambda>_. 0), pinfo0);
          pinfo = fold (fill_partition_tail round_up counts) [0..partition_count' - 1] pinfo;
          pinfo = pinfo\<lparr>partition_count :=
                     (if counts 0 = 0 then 0
                      else if counts 1 = 0 then 1
                      else if counts 2 = 0 then 2
                      else if counts 3 = 0 then 3
                      else 4)\<rparr>;
          pinfo = fold (\<lambda>i pinfo. pinfo\<lparr>partition_texel_count := (partition_texel_count pinfo)(i := counts i),
                               coverage_bitmaps := (coverage_bitmaps pinfo)(i := 0)\<rparr>)
                    [0..3] pinfo;
          texels_to_process = kmeans_texel_count bsd
      in fold (\<lambda>i pinfo. let idx = kmeans_texels bsd i;
                           p = partition_of_texel pinfo idx
                       in pinfo\<lparr>coverage_bitmaps :=
                               (coverage_bitmaps pinfo)(p := coverage_bitmaps pinfo p OR push_bit (nat i) 1)\<rparr>)
              [0..texels_to_process - 1] pinfo)"

text \<open>
  \<^verbatim>\<open>init_partition_tables\<close>: the tables for 2, 3 and 4 partitions start at offsets 0,
  1024 and 2048 of \<^verbatim>\<open>bsd.partitions\<close>, the single entry for 1 partition is at 3072.
\<close>

definition generate_entry_at ::
  "(int \<Rightarrow> int) \<Rightarrow> block_size_descriptor \<Rightarrow> int \<Rightarrow> int \<Rightarrow> int \<Rightarrow>
   (int \<Rightarrow> partition_info) \<Rightarrow> (int \<Rightarrow> partition_info)" where
  "generate_entry_at round_up bsd partition_count' partition_index slot pt =
     pt(slot := generate_one_partition_info_entry round_up bsd partition_count' partition_index (pt slot))"

definition init_partition_tables ::
  "(int \<Rightarrow> int) \<Rightarrow> (int \<Rightarrow> 64 word) \<Rightarrow> block_size_descriptor \<Rightarrow> block_size_descriptor" where
  "init_partition_tables round_up bp0 bsd =
     (let par_tab2 = 0;
          par_tab3 = par_tab2 + int PARTITION_COUNT;
          par_tab4 = par_tab3 + int PARTITION_COUNT;
          par_tab1 = par_tab4 + int PARTITION_COUNT;
          pt = generate_entry_at round_up bsd 1 0 par_tab1 (partitions bsd);
          pt = fold (\<lambda>i pt.
                  generate_entry_at round_up bsd 4 i (par_tab4 + i)
                    (generate_entry_at round_up bsd 3 i (par_tab3 + i)
                       (generate_entry_at round_up bsd 2 i (par_tab2 + i) pt)))
                [0..1023] pt;
          pt = remove_duplicate_partitionings bp0 (texel_count bsd) par_tab2 pt;
          pt = remove_duplicate_partitionings bp0 (texel_count bsd) par_tab3 pt;
          pt = remove_duplicate_partitionings bp0 (texel_count bsd) par_tab4 pt
      in bsd\<lparr>partitions := pt\<rparr>)"

section \<open>Auxiliary notions for the partition tables\<close>

text \<open>The texel coordinates \<open>(z, y, x)\<close> in the order of the three nested loops.\<close>

definition block_coords :: "block_size_descriptor \<Rightarrow> (int \<times> int \<times> int) list" where
  "block_coords bsd =
     concat (map (\<lambda>z. concat (map (\<lambda>y. map (\<lambda>x. (z, y, x)) [0..xdim bsd - 1])
                                   [0..ydim bsd - 1]))
                 [0..zdim bsd - 1])"

text \<open>The partition of every texel, in that order.\<close>

definition texel_parts :: "block_size_descriptor \<Rightarrow> int \<Rightarrow> int \<Rightarrow> int list" where
  "texel_parts bsd partition_count' partition_index =
     map (\<lambda>(z, y, x). u8 (select_partition partition_index x y z partition_count'
                              (texel_count bsd < 32)))
         (block_coords bsd)"

text \<open>
  The canonical pattern of an assignment: the seven words that
  \<^verbatim>\<open>generate_canonical_partitioning\<close> computes, in a cleared array of their own.
\<close>

definition canonical_pattern :: "int \<Rightarrow> (int \<Rightarrow> int) \<Rightarrow> 64 word list" where
  "canonical_pattern texel_count' pot =
     map (generate_canonical_partitioning texel_count' pot 0 (\<lambda>_. 0)) [0..6]"

text \<open>The body of the loop of \<^verbatim>\<open>init_partition_tables\<close>.\<close>

definition generate_step ::
  "(int \<Rightarrow> int) \<Rightarrow> block_size_descriptor \<Rightarrow> int \<Rightarrow> (int \<Rightarrow> partition_info) \<Rightarrow> (int \<Rightarrow> partition_info)" where
  "generate_step round_up bsd i pt =
     generate_entry_at round_up bsd 4 i (2048 + i)
       (generate_entry_at round_up bsd 3 i (1024 + i)
          (generate_entry_at round_up bsd 2 i (0 + i) pt))"

text \<open>
  Sample arguments for closed instances: rounding up to a multiple of four lanes, a cleared
  \<^verbatim>\<open>partition_info\<close>, and the descriptor fields of a \<open>4 \<times> 4\<close> block.
\<close>

definition round_up_simd4 :: "int \<Rightarrow> int" where
  "round_up_simd4 n = (n + 3) div 4 * 4"

definition partition_info_blank :: partition_info where
  "partition_info_blank =
     \<lparr>partition_count = 0, partition_of_texel = (\<lambda>_. 0), texels_of_partition = (\<lambda>_ _. 0),
      partition_texel_count = (\<lambda>_. 0), coverage_bitmaps = (\<lambda>_. 0)\<rparr>"

definition bit_patterns_blank :: "int \<Rightarrow> 64 word" where
  "bit_patterns_blank = (\<lambda>_. 0)"

definition bsd_4x4 :: block_size_descriptor where
  "bsd_4x4 = \<lparr>xdim = 4, ydim = 4, zdim = 1, texel_count = 16, kmeans_texel_count = 16,
              kmeans_texels = (\<lambda>i. i), partitions = (\<lambda>_. partition_info_blank)\<rparr>"

section \<open>Auxiliary notions for the decimation tables\<close>

text \<open>
  The pairs with a non-zero weight; the texel loop as one loop over a list of texels with
  their four pairs; what the loop appends to the row of a texel and to the row of a weight;
  and the content of a row of the local arrays.
\<close>

definition nonzero :: "(int \<times> int) list \<Rightarrow> (int \<times> int) list" where
  "nonzero qws = filter (\<lambda>qw. snd qw \<noteq> 0) qws"

definition accumulate_list ::
  "(int \<times> (int \<times> int) list) list \<Rightarrow> decimation_scratch \<Rightarrow> decimation_scratch" where
  "accumulate_list tps s = fold (\<lambda>tp. fold (store_weight (fst tp)) (snd tp)) tps s"

definition texel_entries :: "(int \<times> (int \<times> int) list) list \<Rightarrow> int \<Rightarrow> (int \<times> int) list" where
  "texel_entries tps t = concat (map (\<lambda>tp. if fst tp = t then nonzero (snd tp) else []) tps)"

definition weight_entries :: "(int \<times> (int \<times> int) list) list \<Rightarrow> int \<Rightarrow> (int \<times> int) list" where
  "weight_entries tps q =
     concat (map (\<lambda>tp. map (\<lambda>qw. (fst tp, snd qw)) (filter (\<lambda>qw. fst qw = q) (nonzero (snd tp)))) tps)"

definition texel_row :: "decimation_scratch \<Rightarrow> int \<Rightarrow> (int \<times> int) list \<Rightarrow> bool" where
  "texel_row s t L \<longleftrightarrow>
     weight_count_of_texel s t = int (length L) \<and>
     (\<forall>k<length L. grid_weights_of_texel s t (int k) = u8 (fst (L ! k)) \<and>
                    weights_of_texel s t (int k) = u8 (snd (L ! k)))"

definition weight_row :: "decimation_scratch \<Rightarrow> int \<Rightarrow> (int \<times> int) list \<Rightarrow> bool" where
  "weight_row s q M \<longleftrightarrow>
     texel_count_of_weight s q = int (length M) \<and>
     (\<forall>m<length M. texels_of_weight s q (int m) = u8 (fst (M ! m)) \<and>
                    texel_weights_of_weight s q (int m) = snd (M ! m))"

definition texel_list :: "(int \<Rightarrow> (int \<times> int) list) \<Rightarrow> int \<Rightarrow> (int \<times> (int \<times> int) list) list" where
  "texel_list f n = map (\<lambda>t. (t, f t)) [0..n - 1]"

definition contrib_2d :: "int \<Rightarrow> int \<Rightarrow> int \<Rightarrow> int \<Rightarrow> int \<Rightarrow> (int \<times> int) list" where
  "contrib_2d x_texels y_texels x_weights' y_weights' t =
     texel_weights_2d x_texels y_texels x_weights' y_weights' (t mod x_texels) (t div x_texels)"

definition contrib_3d :: "int \<Rightarrow> int \<Rightarrow> int \<Rightarrow> int \<Rightarrow> int \<Rightarrow> int \<Rightarrow> int \<Rightarrow> (int \<times> int) list" where
  "contrib_3d x_texels y_texels z_texels x_weights' y_weights' z_weights' t =
     texel_weights_3d x_texels y_texels z_texels x_weights' y_weights' z_weights'
       (t mod x_texels) (t div x_texels mod y_texels) (t div x_texels div y_texels)"

definition hits :: "(int \<Rightarrow> (int \<times> int) list) \<Rightarrow> int \<Rightarrow> int \<Rightarrow> (int \<times> int) list" where
  "hits f q t = map (\<lambda>qw. (t, snd qw)) (filter (\<lambda>qw. fst qw = q) (nonzero (f t)))"

definition texel_cell :: "decimation_table \<Rightarrow> int \<Rightarrow> int \<Rightarrow> int \<times> int \<times> real" where
  "texel_cell dt k i = (texel_weights_4t dt k i, texel_weights_int_4t dt k i, texel_weights_float_4t dt k i)"

definition scratch_cell :: "decimation_scratch \<Rightarrow> int \<Rightarrow> int \<Rightarrow> int \<times> int \<times> real" where
  "scratch_cell s k i =
     (if k < weight_count_of_texel s i
      then (grid_weights_of_texel s i k, weights_of_texel s i k,
            real_of_int (weights_of_texel s i k) * (1 / real_of_int TEXEL_WEIGHT_SUM))
      else (0, 0, 0))"

definition texel_side ::
  "decimation_table \<Rightarrow> (int \<Rightarrow> int) \<times> (int \<Rightarrow> int \<Rightarrow> int) \<times> (int \<Rightarrow> int \<Rightarrow> int) \<times> (int \<Rightarrow> int \<Rightarrow> real)" where
  "texel_side dt =
     (texel_weight_count dt, texel_weights_4t dt, texel_weights_int_4t dt, texel_weights_float_4t dt)"

definition identity_slot :: "decimation_table \<Rightarrow> int \<Rightarrow> int \<Rightarrow> int" where
  "identity_slot dt i texel =
     fold (\<lambda>k sw. if u8 (texel_weights_4t dt k texel) = i \<and> texel_weights_float_4t dt k texel \<noteq> 0
                  then k else sw) [0..3] (-1)"

definition reordered :: "decimation_table \<Rightarrow> int \<Rightarrow> int \<Rightarrow> int \<Rightarrow> int" where
  "reordered dt i texel k =
     (let sw = identity_slot dt i texel
      in if k = sw then u8 (texel_weights_4t dt 0 texel)
         else if k = 0 then u8 (texel_weights_4t dt sw texel)
         else u8 (texel_weights_4t dt k texel))"

section \<open>General lemmas\<close>

lemma fold_preserve: "(\<And>x s. g (f x s) = g s) \<Longrightarrow> g (fold f xs s) = g s"
  by (induction xs arbitrary: s) auto

lemma fold_nested2:
  "fold (\<lambda>y. fold (f y) xs) ys s = fold (\<lambda>(y, x). f y x) (concat (map (\<lambda>y. map (\<lambda>x. (y, x)) xs) ys)) s"
  by (induction ys arbitrary: s) (auto simp: fold_map comp_def)

lemma fold_nested3:
  "fold (\<lambda>z. fold (\<lambda>y. fold (f z y) xs) ys) zs s =
   fold (\<lambda>(z, y, x). f z y x)
        (concat (map (\<lambda>z. concat (map (\<lambda>y. map (\<lambda>x. (z, y, x)) xs) ys)) zs)) s"
proof (induction zs arbitrary: s)
  case Nil
  show ?case by simp
next
  case (Cons z zs)
  have inner: "fold (\<lambda>y. fold (f z y) xs) ys t =
      fold (\<lambda>(z, y, x). f z y x) (concat (map (\<lambda>y. map (\<lambda>x. (z, y, x)) xs) ys)) t" for t
    by (induction ys arbitrary: t) (auto simp: fold_map comp_def)
  show ?case by (simp add: inner Cons.IH)
qed

lemma u8_small: "0 \<le> v \<Longrightarrow> v < 256 \<Longrightarrow> u8 v = v"
  by (simp add: u8_def)

lemma fold_frame: "(\<And>j d. j \<in> set ls \<Longrightarrow> g (f j d) = g d) \<Longrightarrow> g (fold f ls d) = g d"
  by (induction ls arbitrary: d) auto

lemma fold_at:
  assumes "i \<in> set ls"
      and frame: "\<And>j d. j \<noteq> i \<Longrightarrow> g (f j d) = g d"
      and val: "\<And>d. R d \<Longrightarrow> g (f i d) = v"
      and inv: "\<And>j d. R d \<Longrightarrow> R (f j d)"
      and "R d0"
  shows "g (fold f ls d0) = v"
  using assms(1,5)
proof (induction ls arbitrary: d0)
  case Nil
  then show ?case by simp
next
  case (Cons j js)
  show ?case
  proof (cases "i \<in> set js")
    case True
    then show ?thesis using Cons.IH[OF True inv[OF Cons.prems(2)]] by simp
  next
    case False
    with Cons.prems have ji: "j = i" by simp
    have "g (fold f js (f i d0)) = g (f i d0)"
    proof (rule fold_frame)
      fix j' d assume "j' \<in> set js"
      with False have "j' \<noteq> i" by auto
      then show "g (f j' d) = g d" by (rule frame)
    qed
    then show ?thesis using val[OF Cons.prems(2)] by (simp add: ji)
  qed
qed

lemma fold_inv: "(\<And>j d. R d \<Longrightarrow> R (f j d)) \<Longrightarrow> R d0 \<Longrightarrow> R (fold f ls d0)"
  by (induction ls arbitrary: d0) auto

lemma u8_u8: "u8 (u8 v) = u8 v"
  by (simp add: u8_def)

section \<open>Block mode decoding: results\<close>

text \<open>
  C6, as stated: decoding mode \<open>0x0042\<close> gives \<open>x_weights = 6\<close> and \<open>y_weights = 2\<close>.
  This fails for every bit-count function: bits 0..1 of \<open>0x42\<close> are \<open>2\<close>, bits 2..3 are
  \<open>0\<close>, so the first layout applies with \<open>B = 0\<close> and \<open>A = 2\<close>, a \<open>4 \<times> 4\<close> grid.
\<close>

theorem decode_0x42_not_6x2:
  "\<not> (x_weights (decode_block_mode_2d isebits_sample 0x42) = 6 \<and>
      y_weights (decode_block_mode_2d isebits_sample 0x42) = 2)"
  by (simp add: decode_block_mode_2d_def Let_def)

text \<open>
  C6, amended: decoding mode \<open>0x0042\<close> gives \<open>x_weights = 4\<close>, \<open>y_weights = 4\<close>, no dual
  plane and \<open>quant_mode = 2\<close>; the mode is valid exactly when the bit count of 16 weights
  at quantization level 2 lies in \<open>[24, 96]\<close>.
\<close>

theorem decode_0x42:
  "decode_block_mode_2d isebits 0x42 =
     \<lparr>valid = (24 \<le> isebits 16 2 \<and> isebits 16 2 \<le> 96),
      x_weights = 4, y_weights = 4, is_dual_plane = Some False, quant_mode = Some 2\<rparr>"
  by (simp add: decode_block_mode_2d_def Let_def MAX_WEIGHTS_PER_BLOCK_def
      MIN_WEIGHT_BITS_PER_BLOCK_def MAX_WEIGHT_BITS_PER_BLOCK_def)

section \<open>Simplex case selection: results\<close>

text \<open>
  C7: for all integer fractions \<open>fs\<close>, \<open>ft\<close>, \<open>fp\<close> the case index is neither 1 nor 6 and
  lies in \<open>{0, 2, 3, 4, 5, 7}\<close>, so the \<^verbatim>\<open>default\<close> branch of the switch is never taken.
\<close>

theorem simplex_cas_reachable:
  "simplex_cas fs ft fp \<noteq> 1 \<and> simplex_cas fs ft fp \<noteq> 6 \<and>
   simplex_cas fs ft fp \<in> {0, 2, 3, 4, 5, 7}"
  by (auto simp: simplex_cas_def)

section \<open>Partition tables: results\<close>

lemma length_upto_int: "length [0..n - 1] = nat n"
  by simp

lemma length_block_coords:
  "length (block_coords bsd) = nat (zdim bsd) * (nat (ydim bsd) * nat (xdim bsd))"
  by (simp add: block_coords_def length_concat comp_def sum_list_triv)

lemma nat_diff_succ: "nat (k - (p + 1)) = nat (k - p) - Suc 0"
  by arith

lemma assign_fold:
  "fold (\<lambda>(z, y, x). assign_texel idx pc small z y x) cs (t, p, counts, pinfo) = (t', p', counts', pinfo')
   \<Longrightarrow> t' = t + int (length cs) \<and> p' = p + int (length cs) \<and>
       counts' = (\<lambda>q. counts q + int (count_list (map (\<lambda>(z, y, x). u8 (select_partition idx x y z pc small)) cs) q)) \<and>
       partition_of_texel pinfo' =
         (\<lambda>k. if p \<le> k \<and> k < p + int (length cs)
              then map (\<lambda>(z, y, x). u8 (select_partition idx x y z pc small)) cs ! nat (k - p)
              else partition_of_texel pinfo k) \<and>
       partition_count pinfo' = partition_count pinfo"
proof (induction cs arbitrary: t p counts pinfo)
  case Nil
  then show ?case by auto
next
  case (Cons c cs)
  obtain z y x where c: "c = (z, y, x)" by (cases c) auto
  let ?part = "u8 (select_partition idx x y z pc small)"
  let ?pinfo1 = "pinfo\<lparr>texels_of_partition :=
                       (texels_of_partition pinfo)(?part :=
                          (texels_of_partition pinfo ?part)(counts ?part := t)),
                     partition_of_texel := (partition_of_texel pinfo)(p := ?part)\<rparr>"
  have step: "assign_texel idx pc small z y x (t, p, counts, pinfo) =
              (t + 1, p + 1, counts(?part := counts ?part + 1), ?pinfo1)"
    by (simp add: assign_texel_def Let_def)
  from Cons.prems have
    "fold (\<lambda>(z, y, x). assign_texel idx pc small z y x) cs
       (t + 1, p + 1, counts(?part := counts ?part + 1), ?pinfo1) = (t', p', counts', pinfo')"
    by (simp add: c step)
  from Cons.IH[OF this] show ?case
    by (auto simp: c fun_eq_iff nth_Cons' nat_diff_succ split: if_splits)
qed

lemma generate_one_fields:
  fixes bsd pc idx round_up pinfo0
  defines "parts \<equiv> texel_parts bsd pc idx"
  defines "G \<equiv> generate_one_partition_info_entry round_up bsd pc idx pinfo0"
  shows "partition_of_texel G =
           (\<lambda>k. if 0 \<le> k \<and> k < int (length parts) then parts ! nat k
                else partition_of_texel pinfo0 k)"
    and "partition_count G =
           (if count_list parts 0 = 0 then 0
            else if count_list parts 1 = 0 then 1
            else if count_list parts 2 = 0 then 2
            else if count_list parts 3 = 0 then 3
            else 4)"
proof -
  let ?cs = "block_coords bsd"
  let ?small = "texel_count bsd < 32"
  obtain t p counts pinfo where loop:
    "fold (\<lambda>(z, y, x). assign_texel idx pc ?small z y x) ?cs (0, 0, (\<lambda>_. 0), pinfo0)
       = (t, p, counts, pinfo)"
    by (metis prod_cases4)
  note facts = assign_fold[OF loop]
  have G: "G = fold (\<lambda>i pinfo. let idx = kmeans_texels bsd i;
                           p = partition_of_texel pinfo idx
                       in pinfo\<lparr>coverage_bitmaps :=
                               (coverage_bitmaps pinfo)(p := coverage_bitmaps pinfo p OR push_bit (nat i) 1)\<rparr>)
              [0..kmeans_texel_count bsd - 1]
           (fold (\<lambda>i pinfo. pinfo\<lparr>partition_texel_count := (partition_texel_count pinfo)(i := counts i),
                               coverage_bitmaps := (coverage_bitmaps pinfo)(i := 0)\<rparr>)
                    [0..3]
            ((fold (fill_partition_tail round_up counts) [0..pc - 1] pinfo)
               \<lparr>partition_count :=
                     (if counts 0 = 0 then 0
                      else if counts 1 = 0 then 1
                      else if counts 2 = 0 then 2
                      else if counts 3 = 0 then 3
                      else 4)\<rparr>))"
    unfolding G_def generate_one_partition_info_entry_def fold_nested3
    using loop by (simp add: block_coords_def Let_def)
  have tail_pot: "partition_of_texel (fold (fill_partition_tail round_up cn) ls q) = partition_of_texel q" for ls q cn
    by (rule fold_preserve) (simp add: fill_partition_tail_def Let_def fold_preserve)
  show "partition_of_texel G =
           (\<lambda>k. if 0 \<le> k \<and> k < int (length parts) then parts ! nat k
                else partition_of_texel pinfo0 k)"
    unfolding G
    by (simp add: fold_preserve Let_def tail_pot facts parts_def texel_parts_def cong: if_cong)
  show "partition_count G =
           (if count_list parts 0 = 0 then 0
            else if count_list parts 1 = 0 then 1
            else if count_list parts 2 = 0 then 2
            else if count_list parts 3 = 0 then 3
            else 4)"
    unfolding G
    by (simp add: fold_preserve Let_def facts parts_def texel_parts_def)
qed

lemma Let_maskI: "(\<And>v. 0 \<le> v \<Longrightarrow> f v \<in> S) \<Longrightarrow> Let (u AND (63::int)) f \<in> S"
  by simp

lemma Let_zeroI:
  "(c \<Longrightarrow> f 0 \<in> S) \<Longrightarrow> (\<not> c \<Longrightarrow> f d \<in> S) \<Longrightarrow> Let (if c then (0::int) else d) f \<in> S"
  by simp

lemma Let_anyI: "(\<And>v. f v \<in> S) \<Longrightarrow> Let t f \<in> S"
  by simp

lemma case_prod_anyI: "(\<And>a b. f a b \<in> S) \<Longrightarrow> case_prod f p \<in> S"
  by (cases p) simp

lemma select_partition_range:
  assumes "pc \<in> {1, 2, 3, 4}"
  shows "select_partition seed x y z pc sb \<in> {0..<pc}"
  unfolding select_partition_def
  apply (intro Let_maskI Let_zeroI Let_anyI case_prod_anyI)
  using assms apply auto
  done

lemma select_partition_below_4: "select_partition seed x y z pc sb \<in> {0..<4}"
  unfolding select_partition_def
  apply (intro Let_maskI Let_zeroI Let_anyI case_prod_anyI)
  apply auto
  done

lemma texel_parts_range:
  assumes "pc \<in> {1, 2, 3, 4}" "k < length (texel_parts bsd pc idx)"
  shows "texel_parts bsd pc idx ! k \<in> {0..<pc}"
proof -
  obtain z y x where c: "block_coords bsd ! k = (z, y, x)" by (metis prod_cases3)
  have "select_partition idx x y z pc (texel_count bsd < 32) \<in> {0..<pc}"
    by (rule select_partition_range[OF assms(1)])
  moreover from this assms(1) have "u8 (select_partition idx x y z pc (texel_count bsd < 32))
       = select_partition idx x y z pc (texel_count bsd < 32)"
    by (intro u8_small) auto
  ultimately show ?thesis using assms(2) by (simp add: texel_parts_def c)
qed

lemma length_texel_parts:
  "0 \<le> xdim bsd \<Longrightarrow> 0 \<le> ydim bsd \<Longrightarrow> 0 \<le> zdim bsd \<Longrightarrow>
   int (length (texel_parts bsd pc idx)) = xdim bsd * ydim bsd * zdim bsd"
  by (simp add: texel_parts_def length_block_coords nat_mult_distrib)

text \<open>
  C10: for a requested partition count in \<open>{1, 2, 3, 4}\<close>, every seed and every
  coordinate, \<^verbatim>\<open>select_partition\<close> returns a value in \<open>[0, partition_count)\<close>; hence
  every entry of \<^verbatim>\<open>partition_of_texel\<close> that
  \<^verbatim>\<open>generate_one_partition_info_entry\<close> writes for a texel of the block is below the
  requested count.
\<close>

theorem select_partition_below_count:
  assumes "pc \<in> {1, 2, 3, 4}"
  shows "select_partition seed x y z pc sb \<in> {0..<pc} \<and>
         (0 \<le> xdim bsd \<and> 0 \<le> ydim bsd \<and> 0 \<le> zdim bsd \<and>
          0 \<le> k \<and> k < xdim bsd * ydim bsd * zdim bsd \<longrightarrow>
          partition_of_texel (generate_one_partition_info_entry round_up bsd pc idx pinfo0) k
            \<in> {0..<pc})"
proof (intro conjI impI)
  show "select_partition seed x y z pc sb \<in> {0..<pc}"
    by (rule select_partition_range[OF assms])
next
  assume h: "0 \<le> xdim bsd \<and> 0 \<le> ydim bsd \<and> 0 \<le> zdim bsd \<and>
          0 \<le> k \<and> k < xdim bsd * ydim bsd * zdim bsd"
  then have len: "int (length (texel_parts bsd pc idx)) = xdim bsd * ydim bsd * zdim bsd"
    by (simp add: length_texel_parts)
  with h have "nat k < length (texel_parts bsd pc idx)" by linarith
  from texel_parts_range[OF assms this] h len
  show "partition_of_texel (generate_one_partition_info_entry round_up bsd pc idx pinfo0) k
            \<in> {0..<pc}"
    by (simp add: generate_one_fields(1))
qed

lemma pot_image:
  assumes "0 \<le> xdim bsd" "0 \<le> ydim bsd" "0 \<le> zdim bsd"
  shows "partition_of_texel (generate_one_partition_info_entry round_up bsd pc idx pinfo0)
           ` {0 ..< xdim bsd * ydim bsd * zdim bsd} = set (texel_parts bsd pc idx)"
proof -
  let ?ps = "texel_parts bsd pc idx"
  let ?pot = "partition_of_texel (generate_one_partition_info_entry round_up bsd pc idx pinfo0)"
  have len: "int (length ?ps) = xdim bsd * ydim bsd * zdim bsd"
    using assms by (rule length_texel_parts)
  have pot: "?pot k = ?ps ! nat k" if "0 \<le> k" "k < int (length ?ps)" for k
    using that by (simp add: generate_one_fields(1))
  have "?pot ` {0 ..< int (length ?ps)} = set ?ps"
  proof (intro set_eqI iffI)
    fix v assume "v \<in> ?pot ` {0 ..< int (length ?ps)}"
    then obtain k where k: "0 \<le> k" "k < int (length ?ps)" "v = ?pot k" by auto
    then have "nat k < length ?ps" by linarith
    then show "v \<in> set ?ps" using k pot by (metis nth_mem)
  next
    fix v assume "v \<in> set ?ps"
    then obtain n where n: "n < length ?ps" "?ps ! n = v" by (auto simp: in_set_conv_nth)
    then have "?pot (int n) = v" using pot[of "int n"] by simp
    moreover have "int n \<in> {0 ..< int (length ?ps)}" using n by simp
    ultimately show "v \<in> ?pot ` {0 ..< int (length ?ps)}" by blast
  qed
  then show ?thesis by (simp add: len)
qed

text \<open>
  C5: the stored \<^verbatim>\<open>partition_count\<close> is the length of the longest prefix of
  \<open>0, 1, 2, 3\<close> of partitions that have at least one texel of the block: it stops at the
  first empty partition, whatever the later ones hold.
\<close>

theorem partition_count_nonempty_prefix:
  assumes "0 \<le> xdim bsd" "0 \<le> ydim bsd" "0 \<le> zdim bsd"
  shows "partition_count (generate_one_partition_info_entry round_up bsd pc idx pinfo0) =
         int (length (takeWhile
            (\<lambda>p. p \<in> partition_of_texel (generate_one_partition_info_entry round_up bsd pc idx pinfo0)
                         ` {0 ..< xdim bsd * ydim bsd * zdim bsd})
            [0, 1, 2, 3]))"
  by (simp add: pot_image[OF assms] generate_one_fields(2) count_list_0_iff)

lemma canonical_step_frame:
  assumes "0 \<le> i" "i < 224" "cell < base \<or> base + 6 < cell"
  shows "snd (snd (canonical_step pot base i (m, c, bp))) cell = bp cell"
proof -
  have "0 \<le> drop_bit 5 i" "drop_bit 5 i \<le> 6"
    using assms(1,2) by (simp_all add: drop_bit_eq_div)
  then show ?thesis using assms(3)
    by (auto simp: canonical_step_def Let_def split: prod.splits)
qed

lemma canonical_fold_frame:
  assumes "\<forall>i\<in>set ls. 0 \<le> i \<and> i < 224" "cell < base \<or> base + 6 < cell"
  shows "snd (snd (fold (canonical_step pot base) ls st)) cell = snd (snd st) cell"
  using assms(1)
proof (induction ls arbitrary: st)
  case Nil
  show ?case by simp
next
  case (Cons i ls)
  obtain m c bp where st: "st = (m, c, bp)" by (metis prod_cases3)
  have "snd (snd (fold (canonical_step pot base) ls (canonical_step pot base i st))) cell
        = snd (snd (canonical_step pot base i st)) cell"
    using Cons.prems by (intro Cons.IH) simp
  also have "\<dots> = snd (snd st) cell"
    using Cons.prems assms(2) by (simp add: st canonical_step_frame)
  finally show ?case by simp
qed

lemma canonical_fold_relocate:
  assumes "\<forall>k\<in>K. bp (base + k) = bp2 k"
  shows "fst (fold (canonical_step pot base) ls (m, c, bp)) = fst (fold (canonical_step pot 0) ls (m, c, bp2)) \<and>
         fst (snd (fold (canonical_step pot base) ls (m, c, bp))) = fst (snd (fold (canonical_step pot 0) ls (m, c, bp2))) \<and>
         (\<forall>k\<in>K. snd (snd (fold (canonical_step pot base) ls (m, c, bp))) (base + k)
                = snd (snd (fold (canonical_step pot 0) ls (m, c, bp2))) k)"
  using assms
proof (induction ls arbitrary: m c bp bp2)
  case Nil
  then show ?case by simp
next
  case (Cons i ls)
  obtain m1 c1 bp1 where s1: "canonical_step pot base i (m, c, bp) = (m1, c1, bp1)"
    by (metis prod_cases3)
  obtain m2 c2 bp2' where s2: "canonical_step pot 0 i (m, c, bp2) = (m2, c2, bp2')"
    by (metis prod_cases3)
  from s1 s2 Cons.prems have eq: "m1 = m2" "c1 = c2" "\<forall>k\<in>K. bp1 (base + k) = bp2' k"
    by (auto simp: canonical_step_def Let_def split: if_splits prod.splits)
  show ?case using Cons.IH[OF eq(3), of m2 c2] by (simp add: s1 s2 eq)
qed

lemma generate_canonical_frame:
  assumes "texel_count' \<le> 224" "cell < base \<or> base + 6 < cell"
  shows "generate_canonical_partitioning texel_count' pot base bp cell = bp cell"
proof -
  have clear: "fold (\<lambda>i bp. bp(base + i := 0)) ls bp cell = bp cell"
    if "\<forall>i\<in>set ls. 0 \<le> i \<and> i \<le> 6" for ls
    using that assms(2) by (induction ls arbitrary: bp) auto
  show ?thesis
    unfolding generate_canonical_partitioning_def Let_def
    using assms by (subst canonical_fold_frame) (auto simp: clear)
qed

lemma generate_canonical_value:
  assumes "0 \<le> k" "k \<le> 6"
  shows "generate_canonical_partitioning texel_count' pot base bp (base + k)
         = canonical_pattern texel_count' pot ! nat k"
proof -
  let ?K = "{0..6::int}"
  let ?b1 = "fold (\<lambda>i bp. bp(base + i := 0)) [0..6] bp"
  let ?b2 = "fold (\<lambda>i bp. bp(0 + i := 0)) [0..6] (\<lambda>_. 0 :: 64 word)"
  have agree: "\<forall>k\<in>?K. ?b1 (base + k) = ?b2 k"
    by (simp add: upto_rec1)
  have nth: "canonical_pattern texel_count' pot ! nat k
        = generate_canonical_partitioning texel_count' pot 0 (\<lambda>_. 0) k"
  proof -
    have "[0..6::int] ! nat k = k" using assms by (simp add: nth_upto)
    moreover have "nat k < length [0..6::int]" using assms by simp
    ultimately show ?thesis unfolding canonical_pattern_def by (metis nth_map)
  qed
  have kK: "k \<in> ?K" using assms by simp
  let ?L = "[0..texel_count' - 1]"
  let ?M = "fold (\<lambda>i m. m(i := -1)) [0..3] (\<lambda>_. 0 :: int)"
  have "snd (snd (fold (canonical_step pot base) ?L (?M, 0, ?b1))) (base + k)
        = snd (snd (fold (canonical_step pot 0) ?L (?M, 0, ?b2))) k"
    using canonical_fold_relocate[OF agree, of pot ?L ?M 0] kK by blast
  then show ?thesis
    unfolding nth generate_canonical_partitioning_def Let_def .
qed

lemma length_canonical_pattern: "length (canonical_pattern texel_count' pot) = 7"
  by (simp add: canonical_pattern_def)

lemma patterns_fold_frame:
  assumes "texel_count' \<le> 224" "\<forall>i\<in>set ls. cell < i * 7 \<or> i * 7 + 6 < cell"
  shows "fold (\<lambda>i bp. generate_canonical_partitioning texel_count' (pots i) (i * 7) bp) ls bp cell
         = bp cell"
  using assms(2)
  by (induction ls arbitrary: bp) (simp_all add: generate_canonical_frame[OF assms(1)])

lemma patterns_fold_value:
  assumes "texel_count' \<le> 224" "distinct ls" "i \<in> set ls" "0 \<le> k" "k \<le> 6"
  shows "fold (\<lambda>i bp. generate_canonical_partitioning texel_count' (pots i) (i * 7) bp) ls bp
           (i * 7 + k) = canonical_pattern texel_count' (pots i) ! nat k"
  using assms(2,3)
proof (induction ls arbitrary: bp)
  case Nil
  then show ?case by simp
next
  case (Cons j js)
  show ?case
  proof (cases "i \<in> set js")
    case True
    with Cons show ?thesis by simp
  next
    case False
    with Cons.prems have ij: "j = i" by simp
    have "\<forall>j'\<in>set js. i * 7 + k < j' * 7 \<or> j' * 7 + 6 < i * 7 + k"
    proof
      fix j' assume "j' \<in> set js"
      with False have "j' \<noteq> i" by auto
      then show "i * 7 + k < j' * 7 \<or> j' * 7 + 6 < i * 7 + k"
        using assms(4,5) by arith
    qed
    then show ?thesis
      by (simp add: ij patterns_fold_frame[OF assms(1)] generate_canonical_value[OF assms(4,5)])
  qed
qed

lemma duplicate_scan_iff:
  "duplicate_scan bp i js \<longleftrightarrow> (\<exists>j\<in>set js. compare_canonical_partitionings bp (7 * i) (7 * j))"
  by (induction js) auto

lemma list7_eq:
  assumes "length xs = 7" "length ys = 7"
  shows "xs = ys \<longleftrightarrow> xs ! 0 = ys ! 0 \<and> xs ! 1 = ys ! 1 \<and> xs ! 2 = ys ! 2 \<and> xs ! 3 = ys ! 3 \<and>
                      xs ! 4 = ys ! 4 \<and> xs ! 5 = ys ! 5 \<and> xs ! 6 = ys ! 6"
proof -
  have "{..<7::nat} = {0, 1, 2, 3, 4, 5, 6}" by auto
  then have "(\<forall>n<7. P n) \<longleftrightarrow> P 0 \<and> P 1 \<and> P 2 \<and> P 3 \<and> P 4 \<and> P 5 \<and> P (6::nat)" for P
    by (metis insertCI lessThan_iff insertE singletonD)
  with assms show ?thesis by (simp add: list_eq_iff_nth_eq)
qed

lemma compare_patterns:
  assumes "\<And>k. 0 \<le> k \<Longrightarrow> k \<le> 6 \<Longrightarrow> bp (i * 7 + k) = canonical_pattern tc p1 ! nat k"
      and "\<And>k. 0 \<le> k \<Longrightarrow> k \<le> 6 \<Longrightarrow> bp (j * 7 + k) = canonical_pattern tc p2 ! nat k"
  shows "compare_canonical_partitionings bp (7 * i) (7 * j)
         \<longleftrightarrow> canonical_pattern tc p1 = canonical_pattern tc p2"
proof -
  have a: "bp (7 * i + k) = canonical_pattern tc p1 ! nat k" if "0 \<le> k" "k \<le> 6" for k
    using assms(1)[OF that] by (simp add: mult.commute)
  have b: "bp (7 * j + k) = canonical_pattern tc p2 ! nat k" if "0 \<le> k" "k \<le> 6" for k
    using assms(2)[OF that] by (simp add: mult.commute)
  show ?thesis
    unfolding compare_canonical_partitionings_def
    using a[of 0] b[of 0]
    by (simp add: a b list7_eq[OF length_canonical_pattern length_canonical_pattern])
qed

lemma dedup_fold_pot: "partition_of_texel (fold (dedup_step bp tab) ls pt k) = partition_of_texel (pt k)"
  by (induction ls arbitrary: pt) (auto simp: dedup_step_def)

lemma dedup_fold_zero:
  "partition_count (pt k) = 0 \<Longrightarrow> partition_count (fold (dedup_step bp tab) ls pt k) = 0"
  by (induction ls arbitrary: pt) (auto simp: dedup_step_def)

lemma dedup_fold_frame:
  "\<forall>i\<in>set ls. k \<noteq> tab + i \<Longrightarrow> fold (dedup_step bp tab) ls pt k = pt k"
  by (induction ls arbitrary: pt) (auto simp: dedup_step_def)

lemma dedup_fold_hit:
  "i \<in> set ls \<Longrightarrow> duplicate_scan bp i [0..i - 1] \<Longrightarrow>
   partition_count (fold (dedup_step bp tab) ls pt (tab + i)) = 0"
proof (induction ls arbitrary: pt)
  case Nil
  then show ?case by simp
next
  case (Cons j js)
  show ?case
  proof (cases "j = i")
    case True
    have "partition_count (dedup_step bp tab i pt (tab + i)) = 0"
      using Cons.prems(2) by (simp add: dedup_step_def)
    then show ?thesis by (simp add: True dedup_fold_zero)
  next
    case False
    with Cons show ?thesis by simp
  qed
qed

lemma remove_duplicate_unfold:
  "remove_duplicate_partitionings bp0 tc tab pt =
     fold (dedup_step
             (fold (\<lambda>i bp. generate_canonical_partitioning tc
                            (partition_of_texel (pt (tab + i))) (i * 7) bp)
                 [0..int PARTITION_COUNT - 1] bp0) tab)
          [0..int PARTITION_COUNT - 1] pt"
  unfolding remove_duplicate_partitionings_def Let_def ..

lemma remove_duplicate_pot:
  "partition_of_texel (remove_duplicate_partitionings bp0 tc tab pt k) = partition_of_texel (pt k)"
  by (simp add: remove_duplicate_unfold dedup_fold_pot)

lemma remove_duplicate_zero:
  "partition_count (pt k) = 0 \<Longrightarrow> partition_count (remove_duplicate_partitionings bp0 tc tab pt k) = 0"
  by (simp add: remove_duplicate_unfold dedup_fold_zero)

lemma remove_duplicate_frame:
  "k < tab \<or> tab + 1023 < k \<Longrightarrow> remove_duplicate_partitionings bp0 tc tab pt k = pt k"
  unfolding remove_duplicate_unfold
  by (rule dedup_fold_frame) (auto simp: PARTITION_COUNT_def)

lemma remove_duplicate_hit:
  assumes "tc \<le> 224" "0 \<le> j" "j < i" "i < 1024"
      and "canonical_pattern tc (partition_of_texel (pt (tab + i)))
           = canonical_pattern tc (partition_of_texel (pt (tab + j)))"
  shows "partition_count (remove_duplicate_partitionings bp0 tc tab pt (tab + i)) = 0"
proof -
  let ?L = "[0..int PARTITION_COUNT - 1]"
  let ?bp = "fold (\<lambda>i bp. generate_canonical_partitioning tc
                            (partition_of_texel (pt (tab + i))) (i * 7) bp) ?L bp0"
  have val: "?bp (n * 7 + k) = canonical_pattern tc (partition_of_texel (pt (tab + n))) ! nat k"
    if "0 \<le> n" "n < 1024" "0 \<le> k" "k \<le> 6" for n k
    using that by (intro patterns_fold_value[OF assms(1)]) (simp_all add: PARTITION_COUNT_def)
  have "compare_canonical_partitionings ?bp (7 * i) (7 * j)"
    using assms by (subst compare_patterns[where ?p1.0 = "partition_of_texel (pt (tab + i))"
          and ?p2.0 = "partition_of_texel (pt (tab + j))" and tc = tc]) (simp_all add: val)
  moreover have "j \<in> set [0..i - 1]" using assms by simp
  ultimately have "duplicate_scan ?bp i [0..i - 1]"
    unfolding duplicate_scan_iff by blast
  moreover have "i \<in> set ?L" using assms by (simp add: PARTITION_COUNT_def)
  ultimately show ?thesis
    unfolding remove_duplicate_unfold by (rule dedup_fold_hit[rotated])
qed

lemma init_partitions_unfold:
  "partitions (init_partition_tables round_up bp0 bsd) =
     remove_duplicate_partitionings bp0 (texel_count bsd) 2048
       (remove_duplicate_partitionings bp0 (texel_count bsd) 1024
          (remove_duplicate_partitionings bp0 (texel_count bsd) 0
             (fold (generate_step round_up bsd) [0..1023]
                (generate_entry_at round_up bsd 1 0 3072 (partitions bsd)))))"
  by (simp add: init_partition_tables_def Let_def PARTITION_COUNT_def generate_step_def[abs_def])

lemma generate_fold_frame:
  "\<forall>i\<in>set ls. k \<noteq> i \<and> k \<noteq> 1024 + i \<and> k \<noteq> 2048 + i \<Longrightarrow>
   fold (generate_step round_up bsd) ls pt k = pt k"
  by (induction ls arbitrary: pt) (auto simp: generate_step_def generate_entry_at_def)

lemma generate_fold_entry:
  assumes "distinct ls" "i \<in> set ls" "\<forall>j\<in>set ls. 0 \<le> j \<and> j < 1024" "(tab, pc) \<in> {(0, 2), (1024, 3), (2048, 4)}"
  shows "\<exists>q. fold (generate_step round_up bsd) ls pt (tab + i)
             = generate_one_partition_info_entry round_up bsd pc i q"
  using assms(1,2,3)
proof (induction ls arbitrary: pt)
  case Nil
  then show ?case by simp
next
  case (Cons j js)
  show ?case
  proof (cases "i \<in> set js")
    case True
    with Cons show ?thesis by simp
  next
    case False
    with Cons.prems have ij: "j = i" by simp
    have range: "0 \<le> i" "i < 1024" using Cons.prems ij by auto
    have "\<forall>j'\<in>set js. tab + i \<noteq> j' \<and> tab + i \<noteq> 1024 + j' \<and> tab + i \<noteq> 2048 + j'"
    proof
      fix j' assume "j' \<in> set js"
      with False Cons.prems have "j' \<noteq> i" "0 \<le> j'" "j' < 1024" by auto
      with range assms(4) show "tab + i \<noteq> j' \<and> tab + i \<noteq> 1024 + j' \<and> tab + i \<noteq> 2048 + j'"
        by auto
    qed
    then have "fold (generate_step round_up bsd) (j # js) pt (tab + i)
          = generate_step round_up bsd i pt (tab + i)"
      by (simp add: ij generate_fold_frame)
    moreover have "\<exists>q. generate_step round_up bsd i pt (tab + i)
          = generate_one_partition_info_entry round_up bsd pc i q"
      using assms(4) range by (auto simp: generate_step_def generate_entry_at_def)
    ultimately show ?thesis by simp
  qed
qed

lemma init_partitions_pot:
  assumes "(tab, pc) \<in> {(0, 2), (1024, 3), (2048, 4)}" "0 \<le> i" "i < 1024"
      and "0 \<le> k" "k < int (length (texel_parts bsd pc i))"
  shows "partition_of_texel (partitions (init_partition_tables round_up bp0 bsd) (tab + i)) k
         = texel_parts bsd pc i ! nat k"
proof -
  have "\<exists>q. fold (generate_step round_up bsd) [0..1023]
                    (generate_entry_at round_up bsd 1 0 3072 (partitions bsd)) (tab + i)
                  = generate_one_partition_info_entry round_up bsd pc i q"
    by (rule generate_fold_entry[OF _ _ _ assms(1)]) (use assms(2,3) in auto)
  then obtain q where "fold (generate_step round_up bsd) [0..1023]
                    (generate_entry_at round_up bsd 1 0 3072 (partitions bsd)) (tab + i)
                  = generate_one_partition_info_entry round_up bsd pc i q"
    by blast
  then show ?thesis using assms(4,5)
    by (simp add: init_partitions_unfold remove_duplicate_pot generate_one_fields(1))
qed

lemma canonical_pattern_cong:
  assumes "\<And>k. 0 \<le> k \<Longrightarrow> k < tc \<Longrightarrow> p1 k = p2 k"
  shows "canonical_pattern tc p1 = canonical_pattern tc p2"
proof -
  have "fold (canonical_step p1 0) [0..tc - 1] st = fold (canonical_step p2 0) [0..tc - 1] st" for st
    by (rule fold_cong) (auto simp: canonical_step_def assms)
  then show ?thesis
    by (simp add: canonical_pattern_def generate_canonical_partitioning_def)
qed

text \<open>
  C4: after \<^verbatim>\<open>init_partition_tables\<close>, in each of the tables for 2, 3 and 4
  partitions (offsets 0, 1024, 2048), of two distinct entries with the same canonical pattern
  at least one has \<^verbatim>\<open>partition_count = 0\<close>; the entry for one partition (offset 3072) is
  the generated one, untouched by the deduplication.
\<close>

theorem duplicate_partitionings_removed:
  "(texel_count bsd \<le> 216 \<and> tab \<in> {0, 1024, 2048} \<and> 0 \<le> i \<and> i < 1024 \<and> 0 \<le> j \<and> j < 1024 \<and>
    i \<noteq> j \<and>
    canonical_pattern (texel_count bsd)
       (partition_of_texel (partitions (init_partition_tables round_up bp0 bsd) (tab + i)))
    = canonical_pattern (texel_count bsd)
       (partition_of_texel (partitions (init_partition_tables round_up bp0 bsd) (tab + j)))
    \<longrightarrow> partition_count (partitions (init_partition_tables round_up bp0 bsd) (tab + i)) = 0 \<or>
        partition_count (partitions (init_partition_tables round_up bp0 bsd) (tab + j)) = 0) \<and>
   partitions (init_partition_tables round_up bp0 bsd) 3072
     = generate_one_partition_info_entry round_up bsd 1 0 (partitions bsd 3072)"
proof (intro conjI impI)
  let ?tc = "texel_count bsd"
  let ?P = "partitions (init_partition_tables round_up bp0 bsd)"
  let ?g = "fold (generate_step round_up bsd) [0..1023]
                (generate_entry_at round_up bsd 1 0 3072 (partitions bsd))"
  let ?r0 = "remove_duplicate_partitionings bp0 ?tc 0 ?g"
  let ?r1 = "remove_duplicate_partitionings bp0 ?tc 1024 ?r0"
  let ?r2 = "remove_duplicate_partitionings bp0 ?tc 2048 ?r1"
  have P: "?P = ?r2" by (rule init_partitions_unfold)
  show "?P 3072 = generate_one_partition_info_entry round_up bsd 1 0 (partitions bsd 3072)"
    by (simp add: P remove_duplicate_frame generate_fold_frame generate_entry_at_def)
  assume h: "?tc \<le> 216 \<and> tab \<in> {0, 1024, 2048} \<and> 0 \<le> i \<and> i < 1024 \<and> 0 \<le> j \<and> j < 1024 \<and>
    i \<noteq> j \<and> canonical_pattern ?tc (partition_of_texel (?P (tab + i)))
             = canonical_pattern ?tc (partition_of_texel (?P (tab + j)))"
  have hit: "partition_count (?P (tab + a)) = 0"
    if ab: "0 \<le> b" "b < a" "a < 1024"
      and eq: "canonical_pattern ?tc (partition_of_texel (?P (tab + a)))
             = canonical_pattern ?tc (partition_of_texel (?P (tab + b)))" for a b
  proof -
    have tc: "?tc \<le> 224" using h by simp
    have pg: "partition_of_texel (?P n) = partition_of_texel (?g n)" for n
      by (simp add: P remove_duplicate_pot)
    consider "tab = 0" | "tab = 1024" | "tab = 2048" using h by auto
    then show ?thesis
    proof cases
      case 1
      have "partition_count (?r0 (0 + a)) = 0"
        using eq ab by (intro remove_duplicate_hit[OF tc, of b]) (simp_all add: pg 1)
      then show ?thesis by (simp add: P 1 remove_duplicate_zero)
    next
      case 2
      have "partition_count (?r1 (1024 + a)) = 0"
        using eq ab
        by (intro remove_duplicate_hit[OF tc, of b]) (simp_all add: pg 2 remove_duplicate_pot)
      then show ?thesis by (simp add: P 2 remove_duplicate_zero)
    next
      case 3
      have "partition_count (?r2 (2048 + a)) = 0"
        using eq ab
        by (intro remove_duplicate_hit[OF tc, of b]) (simp_all add: pg 3 remove_duplicate_pot)
      then show ?thesis by (simp add: P 3)
    qed
  qed
  from h have "i < j \<or> j < i" by auto
  then show "partition_count (?P (tab + i)) = 0 \<or> partition_count (?P (tab + j)) = 0"
  proof
    assume "i < j"
    with h hit[of i j] show ?thesis by simp
  next
    assume "j < i"
    with h hit[of j i] show ?thesis by simp
  qed
qed

subsection \<open>Closed instances on the \<open>4 \<times> 4\<close> block\<close>

lemma block_coords_4x4: "block_coords bsd_4x4 =
   [(0,0,0),(0,0,1),(0,0,2),(0,0,3),(0,1,0),(0,1,1),(0,1,2),(0,1,3),
    (0,2,0),(0,2,1),(0,2,2),(0,2,3),(0,3,0),(0,3,1),(0,3,2),(0,3,3)]"
  by (simp add: block_coords_def bsd_4x4_def upto_rec1)

lemma texel_parts_4x4_2_0:
  "texel_parts bsd_4x4 2 0 = [0, 0, 0, 0, 0, 0, 0, 0, 0, 0, 0, 0, 0, 0, 0, 0]"
  unfolding texel_parts_def block_coords_4x4 list.map prod.case
  by (simp add: bsd_4x4_def select_partition_def hash52_def Let_def u8_def cong: let_weak_cong)

lemma texel_parts_4x4_2_6:
  "texel_parts bsd_4x4 2 6 = [0, 0, 0, 0, 0, 0, 0, 0, 0, 0, 0, 0, 0, 0, 0, 0]"
  unfolding texel_parts_def block_coords_4x4 list.map prod.case
  by (simp add: bsd_4x4_def select_partition_def hash52_def Let_def u8_def cong: let_weak_cong)

lemma texel_parts_4x4_4_1:
  "texel_parts bsd_4x4 4 1 = [0, 2, 3, 3, 0, 2, 3, 3, 2, 2, 3, 3, 2, 2, 3, 3]"
  unfolding texel_parts_def block_coords_4x4 list.map prod.case
  by (simp add: bsd_4x4_def select_partition_def hash52_def Let_def u8_def cong: let_weak_cong)

theorem select_partition_below_count_witness:
  "(3::int) \<in> {1, 2, 3, 4} \<and> select_partition 17 1 2 0 3 True \<in> {0..<3} \<and>
   0 \<le> xdim bsd_4x4 \<and> 0 \<le> ydim bsd_4x4 \<and> 0 \<le> zdim bsd_4x4 \<and>
   (0::int) \<le> 5 \<and> 5 < xdim bsd_4x4 * ydim bsd_4x4 * zdim bsd_4x4 \<and>
   partition_of_texel
     (generate_one_partition_info_entry round_up_simd4 bsd_4x4 3 17 partition_info_blank) 5
     \<in> {0..<3}"
  using select_partition_below_count[where pc = 3 and seed = 17 and x = 1 and y = 2 and z = 0
      and sb = True and bsd = bsd_4x4 and k = 5 and round_up = round_up_simd4 and idx = 17
      and ?pinfo0.0 = partition_info_blank]
  by (simp add: bsd_4x4_def)

theorem partition_count_nonempty_prefix_witness:
  "0 \<le> xdim bsd_4x4 \<and> 0 \<le> ydim bsd_4x4 \<and> 0 \<le> zdim bsd_4x4 \<and>
   partition_count (generate_one_partition_info_entry round_up_simd4 bsd_4x4 4 1 partition_info_blank)
   = int (length (takeWhile
            (\<lambda>p. p \<in> partition_of_texel
                        (generate_one_partition_info_entry round_up_simd4 bsd_4x4 4 1 partition_info_blank)
                         ` {0 ..< xdim bsd_4x4 * ydim bsd_4x4 * zdim bsd_4x4})
            [0, 1, 2, 3])) \<and>
   partition_count (generate_one_partition_info_entry round_up_simd4 bsd_4x4 4 1 partition_info_blank)
   = 1"
proof -
  have dims: "0 \<le> xdim bsd_4x4" "0 \<le> ydim bsd_4x4" "0 \<le> zdim bsd_4x4"
    by (simp_all add: bsd_4x4_def)
  have "partition_count (generate_one_partition_info_entry round_up_simd4 bsd_4x4 4 1 partition_info_blank)
   = 1"
    by (simp add: generate_one_fields(2) texel_parts_4x4_4_1)
  with dims partition_count_nonempty_prefix[OF dims, of round_up_simd4 4 1 partition_info_blank]
  show ?thesis by simp
qed

theorem duplicate_partitionings_removed_witness:
  "texel_count bsd_4x4 \<le> 216 \<and> (0::int) \<in> {0, 1024, 2048} \<and> (0::int) \<le> 6 \<and> (6::int) < 1024 \<and>
   (0::int) \<le> 0 \<and> (0::int) < 1024 \<and> (6::int) \<noteq> 0 \<and>
   canonical_pattern (texel_count bsd_4x4)
      (partition_of_texel (partitions (init_partition_tables round_up_simd4 bit_patterns_blank bsd_4x4) (0 + 6)))
   = canonical_pattern (texel_count bsd_4x4)
      (partition_of_texel (partitions (init_partition_tables round_up_simd4 bit_patterns_blank bsd_4x4) (0 + 0))) \<and>
   (partition_count (partitions (init_partition_tables round_up_simd4 bit_patterns_blank bsd_4x4) (0 + 6)) = 0 \<or>
    partition_count (partitions (init_partition_tables round_up_simd4 bit_patterns_blank bsd_4x4) (0 + 0)) = 0)"
proof -
  let ?P = "partitions (init_partition_tables round_up_simd4 bit_patterns_blank bsd_4x4)"
  have tc: "texel_count bsd_4x4 = 16" by (simp add: bsd_4x4_def)
  have p6: "partition_of_texel (?P (0 + 6)) k = 0" if "0 \<le> k" "k < 16" for k
  proof -
    have "nat k < 16" using that by simp
    then have "[0, 0, 0, 0, 0, 0, 0, 0, 0, 0, 0, 0, 0, 0, 0, 0::int] ! nat k = 0"
      by (simp add: nth_Cons' )
    then show ?thesis
      using that by (subst init_partitions_pot[where pc = 2]) (simp_all add: texel_parts_4x4_2_6)
  qed
  have p0: "partition_of_texel (?P (0 + 0)) k = 0" if "0 \<le> k" "k < 16" for k
  proof -
    have "nat k < 16" using that by simp
    then have "[0, 0, 0, 0, 0, 0, 0, 0, 0, 0, 0, 0, 0, 0, 0, 0::int] ! nat k = 0"
      by (simp add: nth_Cons')
    then show ?thesis
      using that by (subst init_partitions_pot[where pc = 2]) (simp_all add: texel_parts_4x4_2_0)
  qed
  have eq: "canonical_pattern (texel_count bsd_4x4) (partition_of_texel (?P (0 + 6)))
          = canonical_pattern (texel_count bsd_4x4) (partition_of_texel (?P (0 + 0)))"
    unfolding tc by (rule canonical_pattern_cong) (simp only: p6 p0)
  have pre: "texel_count bsd_4x4 \<le> 216 \<and> (0::int) \<in> {0, 1024, 2048} \<and> (0::int) \<le> 6 \<and> (6::int) < 1024 \<and>
   (0::int) \<le> 0 \<and> (0::int) < 1024 \<and> (6::int) \<noteq> 0"
    by (simp add: tc)
  from duplicate_partitionings_removed[where bsd = bsd_4x4 and tab = 0 and i = 6 and j = 0
      and round_up = round_up_simd4 and ?bp0.0 = bit_patterns_blank] pre eq
  show ?thesis by blast
qed

section \<open>Decimation tables: the content of the table\<close>

lemma texel_row_store_same:
  assumes "texel_row s t L" "length L < 255" "snd qw \<noteq> 0"
  shows "texel_row (store_weight t qw s) t (L @ [qw])"
proof -
  obtain q w where qw: "qw = (q, w)" by (cases qw)
  have n: "u8 (int (length L) + 1) = int (length L) + 1"
    using assms(2) by (intro u8_small) auto
  show ?thesis
    using assms unfolding texel_row_def qw store_weight_def
    by (auto simp: Let_def n nth_append)
qed

lemma texel_row_store_other:
  assumes "texel_row s t L" "t' \<noteq> t \<or> snd qw = 0"
  shows "texel_row (store_weight t' qw s) t L"
proof -
  obtain q w where qw: "qw = (q, w)" by (cases qw)
  show ?thesis
    using assms unfolding texel_row_def qw store_weight_def
    by (auto simp: Let_def)
qed

lemma weight_row_store_same:
  assumes "weight_row s q M" "length M < 255" "w \<noteq> 0"
  shows "weight_row (store_weight t (q, w) s) q (M @ [(t, w)])"
proof -
  have n: "u8 (int (length M) + 1) = int (length M) + 1"
    using assms(2) by (intro u8_small) auto
  show ?thesis
    using assms unfolding weight_row_def store_weight_def
    by (auto simp: Let_def n nth_append)
qed

lemma weight_row_store_other:
  assumes "weight_row s q M" "fst qw \<noteq> q \<or> snd qw = 0"
  shows "weight_row (store_weight t qw s) q M"
proof -
  obtain q' w where qw: "qw = (q', w)" by (cases qw)
  show ?thesis
    using assms unfolding weight_row_def qw store_weight_def
    by (auto simp: Let_def)
qed

lemma texel_row_fold_same:
  "texel_row s t L \<Longrightarrow> length (L @ nonzero qws) < 256 \<Longrightarrow>
   texel_row (fold (store_weight t) qws s) t (L @ nonzero qws)"
proof (induction qws arbitrary: s L)
  case Nil
  then show ?case by (simp add: nonzero_def)
next
  case (Cons qw qws)
  show ?case
  proof (cases "snd qw = 0")
    case True
    with Cons.prems have "texel_row (store_weight t qw s) t L"
      by (simp add: texel_row_store_other)
    from Cons.IH[OF this] Cons.prems True show ?thesis by (simp add: nonzero_def)
  next
    case False
    with Cons.prems have "texel_row (store_weight t qw s) t (L @ [qw])"
      by (intro texel_row_store_same) (auto simp: nonzero_def)
    from Cons.IH[OF this] Cons.prems False show ?thesis by (simp add: nonzero_def)
  qed
qed

lemma texel_row_fold_other:
  "texel_row s t L \<Longrightarrow> t' \<noteq> t \<Longrightarrow> texel_row (fold (store_weight t') qws s) t L"
  by (induction qws arbitrary: s) (simp_all add: texel_row_store_other)

lemma weight_row_fold:
  "weight_row s q M \<Longrightarrow>
   length (M @ map (\<lambda>qw. (t, snd qw)) (filter (\<lambda>qw. fst qw = q) (nonzero qws))) < 256 \<Longrightarrow>
   weight_row (fold (store_weight t) qws s) q
     (M @ map (\<lambda>qw. (t, snd qw)) (filter (\<lambda>qw. fst qw = q) (nonzero qws)))"
proof (induction qws arbitrary: s M)
  case Nil
  then show ?case by (simp add: nonzero_def)
next
  case (Cons qw qws)
  obtain q' w where qw: "qw = (q', w)" by (cases qw)
  show ?case
  proof (cases "q' = q \<and> w \<noteq> 0")
    case True
    then have qq: "q' = q" and w: "w \<noteq> 0" by auto
    have "weight_row (store_weight t qw s) q (M @ [(t, w)])"
      unfolding qw qq using Cons.prems w
      by (intro weight_row_store_same) (auto simp: nonzero_def qw qq)
    from Cons.IH[OF this] Cons.prems True show ?thesis by (simp add: nonzero_def qw)
  next
    case False
    with Cons.prems have "weight_row (store_weight t qw s) q M"
      by (intro weight_row_store_other) (auto simp: qw)
    from Cons.IH[OF this] Cons.prems False show ?thesis by (auto simp: nonzero_def qw)
  qed
qed

lemma texel_row_accumulate:
  "texel_row s t L \<Longrightarrow> length (L @ texel_entries tps t) < 256 \<Longrightarrow>
   texel_row (accumulate_list tps s) t (L @ texel_entries tps t)"
proof (induction tps arbitrary: s L)
  case Nil
  then show ?case by (simp add: accumulate_list_def texel_entries_def)
next
  case (Cons tp tps)
  have unf: "accumulate_list (tp # tps) s = accumulate_list tps (fold (store_weight (fst tp)) (snd tp) s)"
    by (simp add: accumulate_list_def)
  show ?case
  proof (cases "fst tp = t")
    case True
    have "texel_row (fold (store_weight (fst tp)) (snd tp) s) t (L @ nonzero (snd tp))"
      unfolding True using Cons.prems True
      by (intro texel_row_fold_same) (auto simp: texel_entries_def)
    from Cons.IH[OF this] Cons.prems True show ?thesis
      by (simp add: unf texel_entries_def)
  next
    case False
    have "texel_row (fold (store_weight (fst tp)) (snd tp) s) t L"
      using Cons.prems False by (intro texel_row_fold_other) auto
    from Cons.IH[OF this] Cons.prems False show ?thesis
      by (simp add: unf texel_entries_def)
  qed
qed

lemma weight_row_accumulate:
  "weight_row s q M \<Longrightarrow> length (M @ weight_entries tps q) < 256 \<Longrightarrow>
   weight_row (accumulate_list tps s) q (M @ weight_entries tps q)"
proof (induction tps arbitrary: s M)
  case Nil
  then show ?case by (simp add: accumulate_list_def weight_entries_def)
next
  case (Cons tp tps)
  have unf: "accumulate_list (tp # tps) s = accumulate_list tps (fold (store_weight (fst tp)) (snd tp) s)"
    by (simp add: accumulate_list_def)
  let ?M1 = "M @ map (\<lambda>qw. (fst tp, snd qw)) (filter (\<lambda>qw. fst qw = q) (nonzero (snd tp)))"
  have "weight_row (fold (store_weight (fst tp)) (snd tp) s) q ?M1"
    using Cons.prems by (intro weight_row_fold) (auto simp: weight_entries_def)
  from Cons.IH[OF this] Cons.prems show ?case
    by (simp add: unf weight_entries_def)
qed

lemma map_add_upto: "map (\<lambda>x. c + x) [0..int n - 1] = [c..c + int n - 1]"
proof (induction n)
  case 0
  show ?case by simp
next
  case (Suc n)
  have a: "[0..int (Suc n) - 1] = [0..int n - 1] @ [int n]"
    using upto_rec2[of 0 "int n"] by simp
  have b: "[c..c + int (Suc n) - 1] = [c..c + int n - 1] @ [c + int n]"
    using upto_rec2[of c "c + int n"] by simp
  show ?case unfolding a b using Suc by simp
qed

lemma upto_append_block:
  fixes m k :: int
  assumes "0 \<le> m" "0 \<le> k"
  shows "[0..m + k - 1] = [0..m - 1] @ [m..m + k - 1]"
proof (cases "m = 0")
  case True
  then show ?thesis by simp
next
  case False
  with assms have "0 < m" by simp
  then show ?thesis
    using upto_split2[of 0 "m - 1" "m + k - 1"] assms by simp
qed

lemma rows_concat:
  assumes "0 \<le> tx"
  shows "concat (map (\<lambda>y. map (\<lambda>x. y * tx + x) [0..tx - 1]) [0..int n - 1]) = [0..int n * tx - 1]"
proof (induction n)
  case 0
  show ?case by simp
next
  case (Suc n)
  have a: "[0..int (Suc n) - 1] = [0..int n - 1] @ [int n]"
    using upto_rec2[of 0 "int n"] by simp
  have row: "map (\<lambda>x. int n * tx + x) [0..tx - 1] = [int n * tx..int n * tx + tx - 1]"
    using map_add_upto[of "int n * tx" "nat tx"] assms by simp
  have "0 \<le> int n * tx" using assms by simp
  then have "[0..int n * tx + tx - 1] = [0..int n * tx - 1] @ [int n * tx..int n * tx + tx - 1]"
    using assms by (rule upto_append_block)
  then show ?case unfolding a using Suc row by (simp add: algebra_simps)
qed

lemma idx_mod: "0 \<le> x \<Longrightarrow> x < tx \<Longrightarrow> (r * tx + x) mod tx = (x::int)"
  by simp

lemma idx_div: "0 \<le> x \<Longrightarrow> x < tx \<Longrightarrow> (r * tx + x) div tx = (r::int)"
  by simp

lemma accumulate_2d_list:
  assumes "1 \<le> tx" "0 \<le> ty"
  shows "accumulate_2d tx ty wx wy s = accumulate_list (texel_list (contrib_2d tx ty wx wy) (tx * ty)) s"
proof -
  let ?coords = "concat (map (\<lambda>y. map (\<lambda>x. (y, x)) [0..tx - 1]) [0..ty - 1])"
  let ?G = "\<lambda>t. fold (store_weight t) (contrib_2d tx ty wx wy t)"
  let ?F = "\<lambda>y x. fold (store_weight (y * tx + x)) (texel_weights_2d tx ty wx wy x y)"
  have "concat (map (\<lambda>y. map (\<lambda>x. y * tx + x) [0..tx - 1]) [0..int (nat ty) - 1])
        = [0..int (nat ty) * tx - 1]"
    using assms by (intro rows_concat) simp
  then have "concat (map (\<lambda>y. map (\<lambda>x. y * tx + x) [0..tx - 1]) [0..ty - 1]) = [0..tx * ty - 1]"
    using assms by (simp add: mult.commute)
  then have idx: "map (\<lambda>(y, x). y * tx + x) ?coords = [0..tx * ty - 1]"
    by (simp add: map_concat comp_def)
  have FG: "?F y x = ?G (y * tx + x)" if "0 \<le> x" "x < tx" for y x
    using that by (simp add: contrib_2d_def idx_mod idx_div)
  have "accumulate_2d tx ty wx wy s = fold (\<lambda>y. fold (?F y) [0..tx - 1]) [0..ty - 1] s"
    unfolding accumulate_2d_def Let_def ..
  also have "\<dots> = fold (\<lambda>(y, x). ?F y x) ?coords s"
    by (rule fold_nested2)
  also have "\<dots> = fold (\<lambda>(y, x). ?G (y * tx + x)) ?coords s"
    by (rule fold_cong[OF refl refl]) (auto simp: FG)
  also have "\<dots> = fold ?G (map (\<lambda>(y, x). y * tx + x) ?coords) s"
    by (simp add: fold_map comp_def case_prod_unfold)
  also have "\<dots> = accumulate_list (texel_list (contrib_2d tx ty wx wy) (tx * ty)) s"
    unfolding idx by (simp add: accumulate_list_def texel_list_def fold_map comp_def)
  finally show ?thesis .
qed

lemma accumulate_3d_list:
  assumes "1 \<le> tx" "1 \<le> ty" "0 \<le> tz"
  shows "accumulate_3d tx ty tz wx wy wz s
         = accumulate_list (texel_list (contrib_3d tx ty tz wx wy wz) (tx * ty * tz)) s"
proof -
  let ?rows = "concat (map (\<lambda>z. map (\<lambda>y. (z, y)) [0..ty - 1]) [0..tz - 1])"
  let ?G = "\<lambda>t. fold (store_weight t) (contrib_3d tx ty tz wx wy wz t)"
  let ?H = "\<lambda>r. fold (\<lambda>x. ?G (r * tx + x)) [0..tx - 1]"
  have ridx: "map (\<lambda>(z, y). z * ty + y) ?rows = [0..tz * ty - 1]"
    using rows_concat[of ty "nat tz"] assms by (simp add: map_concat comp_def)
  have rows_nonneg: "0 \<le> tz * ty" using assms by simp
  let ?coords = "concat (map (\<lambda>r. map (\<lambda>x. (r, x)) [0..tx - 1]) [0..tz * ty - 1])"
  have idx: "map (\<lambda>(r, x). r * tx + x) ?coords = [0..tx * ty * tz - 1]"
    using rows_concat[of tx "nat (tz * ty)"] assms rows_nonneg
    by (simp add: map_concat comp_def mult.commute mult.left_commute)
  let ?F = "\<lambda>z y. fold (\<lambda>x. fold (store_weight ((z * ty + y) * tx + x))
                     (texel_weights_3d tx ty tz wx wy wz x y z)) [0..tx - 1]"
  have "accumulate_3d tx ty tz wx wy wz s = fold (\<lambda>z. fold (?F z) [0..ty - 1]) [0..tz - 1] s"
    unfolding accumulate_3d_def Let_def ..
  also have "\<dots> = fold (\<lambda>(z, y). ?F z y) ?rows s"
    by (rule fold_nested2)
  also have "\<dots> = fold (\<lambda>(z, y). ?H (z * ty + y)) ?rows s"
  proof -
    have FH: "?F z y = ?H (z * ty + y)" if zy: "0 \<le> y" "y < ty" for z y
    proof (rule ext, rule fold_cong[OF refl refl])
      fix x assume "x \<in> set [0..tx - 1]"
      then have x: "0 \<le> x" "x < tx" by auto
      have "contrib_3d tx ty tz wx wy wz ((z * ty + y) * tx + x)
            = texel_weights_3d tx ty tz wx wy wz x y z"
        using x zy assms by (simp add: contrib_3d_def idx_mod idx_div)
      then show "fold (store_weight ((z * ty + y) * tx + x))
                     (texel_weights_3d tx ty tz wx wy wz x y z)
               = fold (store_weight ((z * ty + y) * tx + x))
                     (contrib_3d tx ty tz wx wy wz ((z * ty + y) * tx + x))"
        by simp
    qed
    show ?thesis
      by (rule fold_cong[OF refl refl]) (auto simp: FH)
  qed
  also have "\<dots> = fold ?H (map (\<lambda>(z, y). z * ty + y) ?rows) s"
    by (simp add: fold_map comp_def case_prod_unfold)
  also have "\<dots> = fold (\<lambda>(r, x). ?G (r * tx + x)) ?coords s"
    unfolding ridx fold_nested2 ..
  also have "\<dots> = fold ?G (map (\<lambda>(r, x). r * tx + x) ?coords) s"
    by (simp add: fold_map comp_def case_prod_unfold)
  also have "\<dots> = accumulate_list (texel_list (contrib_3d tx ty tz wx wy wz) (tx * ty * tz)) s"
    unfolding idx by (simp add: accumulate_list_def texel_list_def fold_map comp_def)
  finally show ?thesis .
qed

lemma clear_weight_count_of_texel:
  "weight_count_of_texel
     (fold (\<lambda>i s. s\<lparr>weight_count_of_texel := (weight_count_of_texel s)(i := 0)\<rparr>) ls s)
   = (\<lambda>i. if i \<in> set ls then 0 else weight_count_of_texel s i)"
  by (induction ls arbitrary: s) (auto simp: fun_eq_iff)

lemma clear_texel_count_of_weight:
  "texel_count_of_weight
     (fold (\<lambda>i s. s\<lparr>texel_count_of_weight := (texel_count_of_weight s)(i := 0)\<rparr>) ls s)
   = (\<lambda>i. if i \<in> set ls then 0 else texel_count_of_weight s i)"
  by (induction ls arbitrary: s) (auto simp: fun_eq_iff)

lemma clear_counts_texel_row:
  "0 \<le> t \<Longrightarrow> t < tpb \<Longrightarrow> texel_row (clear_counts tpb wpb s0) t []"
  by (simp add: texel_row_def clear_counts_def Let_def clear_weight_count_of_texel)

lemma clear_counts_weight_row:
  "0 \<le> q \<Longrightarrow> q < wpb \<Longrightarrow> weight_row (clear_counts tpb wpb s0) q []"
  by (simp add: weight_row_def clear_counts_def Let_def fold_preserve clear_texel_count_of_weight)

lemma concat_pick:
  "distinct ls \<Longrightarrow> t \<in> set ls \<Longrightarrow> concat (map (\<lambda>t'. if t' = t then h t' else []) ls) = h t"
proof (induction ls)
  case Nil
  then show ?case by simp
next
  case (Cons a ls)
  have none: "concat (map (\<lambda>t'. if t' = t then h t' else []) ks) = []" if "t \<notin> set ks" for ks
    using that by (induction ks) auto
  show ?case
  proof (cases "a = t")
    case True
    with Cons.prems have "t \<notin> set ls" by auto
    then show ?thesis using True by (simp add: none)
  next
    case False
    with Cons show ?thesis by simp
  qed
qed

lemma texel_entries_list:
  "0 \<le> t \<Longrightarrow> t < n \<Longrightarrow> texel_entries (texel_list f n) t = nonzero (f t)"
  using concat_pick[of "[0..n - 1]" t "\<lambda>t. nonzero (f t)"]
  by (simp add: texel_entries_def texel_list_def comp_def cong: if_cong)

lemma weight_entries_list:
  "weight_entries (texel_list f n) q = concat (map (hits f q) [0..n - 1])"
  by (simp add: weight_entries_def texel_list_def comp_def hits_def[abs_def])

lemma filter_fst_distinct:
  "distinct (map fst qws) \<Longrightarrow> length (filter (\<lambda>qw. fst qw = q) qws) \<le> 1"
proof (induction qws)
  case Nil
  then show ?case by simp
next
  case (Cons a qws)
  show ?case
  proof (cases "fst a = q")
    case True
    from Cons.prems have "fst a \<notin> fst ` set qws" by simp
    with True have "\<forall>qw\<in>set qws. fst qw \<noteq> q" by blast
    then have "filter (\<lambda>qw. fst qw = q) qws = []" by (simp add: filter_empty_conv)
    then show ?thesis by simp
  next
    case False
    with Cons show ?thesis by simp
  qed
qed

lemma distinct_nonzero: "distinct (map fst qws) \<Longrightarrow> distinct (map fst (nonzero qws))"
  by (simp add: nonzero_def distinct_map_filter)

lemma length_hits: "distinct (map fst (f t)) \<Longrightarrow> length (hits f q t) \<le> 1"
  using filter_fst_distinct[OF distinct_nonzero, of "f t" q] by (simp add: hits_def)

lemma length_concat_hits:
  "(\<And>t. t \<in> set ls \<Longrightarrow> length (hits f q t) \<le> 1) \<Longrightarrow>
   length (concat (map (hits f q) ls)) \<le> length ls"
proof (induction ls)
  case Nil
  then show ?case by simp
next
  case (Cons a ls)
  have "length (hits f q a) \<le> 1" using Cons.prems by simp
  moreover have "length (concat (map (hits f q) ls)) \<le> length ls"
    using Cons by simp
  ultimately show ?case by simp
qed

lemma scratch_texel_row:
  assumes "0 \<le> t" "t < n" "length (f t) \<le> 4"
  shows "texel_row (accumulate_list (texel_list f n) (clear_counts n wpb s0)) t (nonzero (f t))"
proof -
  have "length (nonzero (f t)) \<le> length (f t)" by (simp add: nonzero_def)
  with assms(3) have len: "length ([] @ texel_entries (texel_list f n) t) < 256"
    by (simp add: texel_entries_list[OF assms(1,2)])
  from texel_row_accumulate[OF clear_counts_texel_row[OF assms(1,2)] len]
  show ?thesis by (simp add: texel_entries_list[OF assms(1,2)])
qed

lemma scratch_weight_row:
  assumes "0 \<le> q" "q < wpb" "n \<le> 255" "\<And>t. 0 \<le> t \<Longrightarrow> t < n \<Longrightarrow> distinct (map fst (f t))"
  shows "weight_row (accumulate_list (texel_list f n) (clear_counts n wpb s0)) q
           (concat (map (hits f q) [0..n - 1]))"
proof -
  have "length (concat (map (hits f q) [0..n - 1])) \<le> length [0..n - 1]"
  proof (rule length_concat_hits)
    fix t assume "t \<in> set [0..n - 1]"
    then have "0 \<le> t" "t < n" by auto
    from assms(4)[OF this] show "length (hits f q t) \<le> 1" by (rule length_hits)
  qed
  with assms(3) have len: "length ([] @ weight_entries (texel_list f n) q) < 256"
    by (simp add: weight_entries_list)
  from weight_row_accumulate[OF clear_counts_weight_row[OF assms(1,2)] len]
  show ?thesis by (simp add: weight_entries_list)
qed

text \<open>Phase 2: the per-texel columns.\<close>

lemma set_texel_slot_cell:
  "texel_cell (set_texel_slot j i wi wflt g dt) k i' =
     (if k = j \<and> i' = i then (g, wi, wflt) else texel_cell dt k i')"
  by (simp add: texel_cell_def set_texel_slot_def)

lemma set_texel_slot_count: "texel_weight_count (set_texel_slot j i wi wflt g dt) = texel_weight_count dt"
  by (simp add: set_texel_slot_def)

lemma copy_fold_cell:
  "texel_cell (fold (copy_texel_slot s i) ls dt) k i' =
     (if k \<in> set ls \<and> i' = i
      then (grid_weights_of_texel s i k, weights_of_texel s i k,
            real_of_int (weights_of_texel s i k) * (1 / real_of_int TEXEL_WEIGHT_SUM))
      else texel_cell dt k i')"
  by (induction ls arbitrary: dt) (auto simp: copy_texel_slot_def set_texel_slot_cell)

lemma zero_fold_cell:
  "texel_cell (fold (\<lambda>j. set_texel_slot j i 0 0 0) ls dt) k i' =
     (if k \<in> set ls \<and> i' = i then (0, 0, 0) else texel_cell dt k i')"
  by (induction ls arbitrary: dt) (auto simp: set_texel_slot_cell)

lemma texel_cell_count_update:
  "texel_cell (dt\<lparr>texel_weight_count := c\<rparr>) k i = texel_cell dt k i"
  by (simp add: texel_cell_def)

lemma fill_texel_2d_cell:
  assumes "0 \<le> k" "k \<le> 3"
  shows "texel_cell (fill_texel_2d s i dt) k i' =
           (if i' = i then scratch_cell s k i else texel_cell dt k i')"
  using assms
  by (auto simp: fill_texel_2d_def Let_def zero_fold_cell copy_fold_cell texel_cell_count_update
      scratch_cell_def)

lemma fill_texel_3d_cell:
  assumes "0 \<le> k" "k \<le> 3"
  shows "texel_cell (fill_texel_3d s i dt) k i' =
           (if i' = i then scratch_cell s k i else texel_cell dt k i')"
  using assms
  by (auto simp: fill_texel_3d_def Let_def zero_fold_cell copy_fold_cell texel_cell_count_update
      scratch_cell_def)

lemma fill_texel_2d_count:
  "texel_weight_count (fill_texel_2d s i dt) = (texel_weight_count dt)(i := weight_count_of_texel s i)"
  by (simp add: fill_texel_2d_def Let_def fold_preserve set_texel_slot_count copy_texel_slot_def)

lemma fill_texel_3d_count:
  "texel_weight_count (fill_texel_3d s i dt) = (texel_weight_count dt)(i := weight_count_of_texel s i)"
  by (simp add: fill_texel_3d_def Let_def fold_preserve set_texel_slot_count copy_texel_slot_def)

lemma fill_texels_cell:
  assumes "0 \<le> k" "k \<le> 3"
      and "\<And>i i' dt. texel_cell (fill i dt) k i' = (if i' = i then scratch_cell s k i else texel_cell dt k i')"
  shows "texel_cell (fold fill ls dt) k i =
           (if i \<in> set ls then scratch_cell s k i else texel_cell dt k i)"
  by (induction ls arbitrary: dt) (auto simp: assms(3))

lemma fill_texels_count:
  assumes "\<And>i dt. texel_weight_count (fill i dt) = (texel_weight_count dt)(i := weight_count_of_texel s i)"
  shows "texel_weight_count (fold fill ls dt) i =
           (if i \<in> set ls then weight_count_of_texel s i else texel_weight_count dt i)"
  by (induction ls arbitrary: dt) (auto simp: assms)

text \<open>Phase 3: the per-weight columns.\<close>

lemma gather_fold_side:
  "texel_side (snd (fold (gather_slot i j texel) ks (sw, dt))) = texel_side dt"
  by (induction ks arbitrary: sw dt) (auto simp: gather_slot_def Let_def texel_side_def)

lemma gather_fold_weight_texel:
  "weight_texel (snd (fold (gather_slot i j texel) ks (sw, dt))) = weight_texel dt \<and>
   weight_texel_count (snd (fold (gather_slot i j texel) ks (sw, dt))) = weight_texel_count dt"
  by (induction ks arbitrary: sw dt) (auto simp: gather_slot_def Let_def)

lemma gather_fold_fst:
  "fst (fold (gather_slot i j texel) ks (sw, dt)) =
     fold (\<lambda>k sw. if u8 (texel_weights_4t dt k texel) = i \<and> texel_weights_float_4t dt k texel \<noteq> 0
                  then k else sw) ks sw"
proof (induction ks arbitrary: sw dt)
  case Nil
  show ?case by simp
next
  case (Cons k ks)
  obtain sw1 dt1 where step: "gather_slot i j texel k (sw, dt) = (sw1, dt1)" by (cases "gather_slot i j texel k (sw, dt)")
  then have sw1: "sw1 = (if u8 (texel_weights_4t dt k texel) = i \<and> texel_weights_float_4t dt k texel \<noteq> 0
                  then k else sw)"
    and dt1: "texel_weights_4t dt1 = texel_weights_4t dt" "texel_weights_float_4t dt1 = texel_weights_float_4t dt"
    by (auto simp: gather_slot_def Let_def)
  show ?case by (simp add: step Cons.IH dt1 sw1)
qed

lemma gather_fold_tw:
  "texel_weights_texel (snd (fold (gather_slot i j texel) ks (sw, dt))) i' j' k =
     (if i' = i \<and> j' = j \<and> k \<in> set ks then u8 (texel_weights_4t dt k texel)
      else texel_weights_texel dt i' j' k)"
proof (induction ks arbitrary: sw dt)
  case Nil
  show ?case by simp
next
  case (Cons a ks)
  obtain sw1 dt1 where step: "gather_slot i j texel a (sw, dt) = (sw1, dt1)" by (cases "gather_slot i j texel a (sw, dt)")
  then have dt1: "texel_weights_4t dt1 = texel_weights_4t dt"
    by (auto simp: gather_slot_def Let_def)
  have tw1: "texel_weights_texel dt1 i'' j'' k'' =
       (if i'' = i \<and> j'' = j \<and> k'' = a then u8 (texel_weights_4t dt a texel)
        else texel_weights_texel dt i'' j'' k'')" for i'' j'' k''
    using step by (auto simp: gather_slot_def Let_def)
  show ?case by (auto simp: step Cons.IH dt1 tw1)
qed

lemma swap_slots_side: "texel_side (swap_slots i j sw dt) = texel_side dt"
  by (simp add: swap_slots_def Let_def texel_side_def)

lemma swap_slots_weight_texel:
  "weight_texel (swap_slots i j sw dt) = weight_texel dt \<and>
   weight_texel_count (swap_slots i j sw dt) = weight_texel_count dt"
  by (simp add: swap_slots_def Let_def)

lemma swap_slots_tw:
  "texel_weights_texel (swap_slots i j sw dt) i' j' k =
     (if i' = i \<and> j' = j
      then (if k = sw then u8 (texel_weights_texel dt i j 0)
            else if k = 0 then texel_weights_texel dt i j sw
            else texel_weights_texel dt i j k)
      else texel_weights_texel dt i' j' k)"
  by (simp add: swap_slots_def Let_def)

lemma set_upto_0_3: "k \<in> set [0..3] \<longleftrightarrow> 0 \<le> k \<and> k \<le> (3::int)"
  by simp

lemma fill_weight_texel_side: "texel_side (fill_weight_texel s i j dt) = texel_side dt"
proof -
  let ?d1 = "dt\<lparr>weight_texel := (weight_texel dt)(j := (weight_texel dt j)(i := texels_of_weight s i j)),
                   weights_flt := (weights_flt dt)(j := (weights_flt dt j)(i :=
                                     real_of_int (texel_weights_of_weight s i j)))\<rparr>"
  obtain sw d2 where g: "fold (gather_slot i j (texels_of_weight s i j)) [0..3] (-1, ?d1) = (sw, d2)"
    by (cases "fold (gather_slot i j (texels_of_weight s i j)) [0..3] (-1, ?d1)")
  have "texel_side d2 = texel_side ?d1"
    using gather_fold_side[of i j "texels_of_weight s i j" "[0..3]" "-1" ?d1] by (simp add: g)
  then show ?thesis
    by (simp add: fill_weight_texel_def Let_def g swap_slots_side) (simp add: texel_side_def)
qed

lemma fill_weight_texel_wt:
  "weight_texel (fill_weight_texel s i j dt) j' i' =
     (if j' = j \<and> i' = i then texels_of_weight s i j else weight_texel dt j' i')"
  and fill_weight_texel_wtc: "weight_texel_count (fill_weight_texel s i j dt) = weight_texel_count dt"
proof -
  let ?d1 = "dt\<lparr>weight_texel := (weight_texel dt)(j := (weight_texel dt j)(i := texels_of_weight s i j)),
                   weights_flt := (weights_flt dt)(j := (weights_flt dt j)(i :=
                                     real_of_int (texel_weights_of_weight s i j)))\<rparr>"
  obtain sw d2 where g: "fold (gather_slot i j (texels_of_weight s i j)) [0..3] (-1, ?d1) = (sw, d2)"
    by (cases "fold (gather_slot i j (texels_of_weight s i j)) [0..3] (-1, ?d1)")
  have d2: "weight_texel d2 = weight_texel ?d1" "weight_texel_count d2 = weight_texel_count ?d1"
    using gather_fold_weight_texel[of i j "texels_of_weight s i j" "[0..3]" "-1" ?d1] by (simp_all add: g)
  show "weight_texel (fill_weight_texel s i j dt) j' i' =
     (if j' = j \<and> i' = i then texels_of_weight s i j else weight_texel dt j' i')"
    by (simp add: fill_weight_texel_def Let_def g swap_slots_weight_texel d2)
  show "weight_texel_count (fill_weight_texel s i j dt) = weight_texel_count dt"
    by (simp add: fill_weight_texel_def Let_def g swap_slots_weight_texel d2)
qed

lemma fill_weight_texel_tw:
  assumes "0 \<le> k" "k \<le> 3" "identity_slot dt i (texels_of_weight s i j) \<in> {0..3}"
  shows "texel_weights_texel (fill_weight_texel s i j dt) i' j' k =
     (if i' = i \<and> j' = j then reordered dt i (texels_of_weight s i j) k
      else texel_weights_texel dt i' j' k)"
proof -
  let ?t = "texels_of_weight s i j"
  let ?d1 = "dt\<lparr>weight_texel := (weight_texel dt)(j := (weight_texel dt j)(i := ?t)),
                   weights_flt := (weights_flt dt)(j := (weights_flt dt j)(i :=
                                     real_of_int (texel_weights_of_weight s i j)))\<rparr>"
  obtain sw d2 where g: "fold (gather_slot i j ?t) [0..3] (-1, ?d1) = (sw, d2)"
    by (cases "fold (gather_slot i j ?t) [0..3] (-1, ?d1)")
  have sw: "sw = identity_slot dt i ?t"
    using gather_fold_fst[of i j ?t "[0..3]" "-1" ?d1] by (simp add: g identity_slot_def)
  have tw2: "texel_weights_texel d2 i'' j'' k' =
     (if i'' = i \<and> j'' = j \<and> 0 \<le> k' \<and> k' \<le> 3 then u8 (texel_weights_4t dt k' ?t)
      else texel_weights_texel dt i'' j'' k')" for i'' j'' k'
    using gather_fold_tw[of i j ?t "[0..3]" "-1" ?d1 i'' j'' k'] by (simp add: g)
  have swr: "0 \<le> sw" "sw \<le> 3" using assms(3) sw by auto
  show ?thesis
    using assms(1,2) swr
    by (auto simp: fill_weight_texel_def Let_def g swap_slots_tw tw2 reordered_def sw[symmetric] u8_u8)
qed

lemma fill_weight_texel_tw_other:
  assumes "i' \<noteq> i \<or> j' \<noteq> j"
  shows "texel_weights_texel (fill_weight_texel s i j dt) i' j' = texel_weights_texel dt i' j'"
proof -
  let ?t = "texels_of_weight s i j"
  let ?d1 = "dt\<lparr>weight_texel := (weight_texel dt)(j := (weight_texel dt j)(i := ?t)),
                   weights_flt := (weights_flt dt)(j := (weights_flt dt j)(i :=
                                     real_of_int (texel_weights_of_weight s i j)))\<rparr>"
  obtain sw d2 where g: "fold (gather_slot i j ?t) [0..3] (-1, ?d1) = (sw, d2)"
    by (cases "fold (gather_slot i j ?t) [0..3] (-1, ?d1)")
  have tw2: "texel_weights_texel d2 i' j' k' = texel_weights_texel dt i' j' k'" for k'
    using gather_fold_tw[of i j ?t "[0..3]" "-1" ?d1 i' j' k'] assms by (auto simp: g)
  show ?thesis
    using assms by (auto simp: fun_eq_iff fill_weight_texel_def Let_def g swap_slots_tw tw2)
qed

lemma identity_slot_cong:
  assumes "\<And>k. 0 \<le> k \<Longrightarrow> k \<le> 3 \<Longrightarrow> texel_cell d k texel = texel_cell d' k texel"
  shows "identity_slot d i texel = identity_slot d' i texel"
proof -
  have "texel_weights_4t d k texel = texel_weights_4t d' k texel \<and>
        texel_weights_float_4t d k texel = texel_weights_float_4t d' k texel"
    if "k \<in> set [0..3]" for k
    using assms[of k] that by (simp add: texel_cell_def)
  then show ?thesis
    unfolding identity_slot_def by (intro fold_cong) auto
qed

lemma reordered_cong:
  assumes "\<And>k. 0 \<le> k \<Longrightarrow> k \<le> 3 \<Longrightarrow> texel_cell d k texel = texel_cell d' k texel"
      and "identity_slot d i texel \<in> {0..3}" "0 \<le> k" "k \<le> 3"
  shows "reordered d i texel k = reordered d' i texel k"
proof -
  have c: "texel_weights_4t d k texel = texel_weights_4t d' k texel" if "0 \<le> k" "k \<le> 3" for k
    using assms(1)[OF that] by (simp add: texel_cell_def)
  have sw: "identity_slot d i texel = identity_slot d' i texel"
    by (rule identity_slot_cong) (rule assms(1))
  show ?thesis
    using assms(2,3,4) c sw unfolding reordered_def Let_def by auto
qed

lemma texel_side_cell: "texel_side d = texel_side d' \<Longrightarrow> texel_cell d k i = texel_cell d' k i"
  by (simp add: texel_side_def texel_cell_def)

lemma fill_weight_side: "texel_side (fill_weight s i dt) = texel_side dt"
proof -
  have tail: "texel_side (fold (\<lambda>j dt. dt\<lparr>weight_texel := (weight_texel dt)(j := (weight_texel dt j)(i := v)),
                          weights_flt := (weights_flt dt)(j := (weights_flt dt j)(i := 0))\<rparr>) ls d)
              = texel_side d" for v ls d
    by (rule fold_preserve) (simp add: texel_side_def)
  have body: "texel_side (fold (fill_weight_texel s i) ls d) = texel_side d" for ls d
    by (rule fold_preserve) (rule fill_weight_texel_side)
  show ?thesis
    by (simp add: fill_weight_def Let_def tail body) (simp add: texel_side_def)
qed

lemma fill_weight_count:
  "weight_texel_count (fill_weight s i dt) = (weight_texel_count dt)(i := u8 (texel_count_of_weight s i))"
proof -
  have tail: "weight_texel_count (fold (\<lambda>j dt. dt\<lparr>weight_texel := (weight_texel dt)(j := (weight_texel dt j)(i := v)),
                          weights_flt := (weights_flt dt)(j := (weights_flt dt j)(i := 0))\<rparr>) ls d)
              = weight_texel_count d" for v ls d
    by (rule fold_preserve) simp
  have body: "weight_texel_count (fold (fill_weight_texel s i) ls d) = weight_texel_count d" for ls d
    by (rule fold_preserve) (rule fill_weight_texel_wtc)
  show ?thesis
    by (simp add: fill_weight_def Let_def tail body)
qed

lemma fill_weight_tail_loop_wt:
  "weight_texel (fold (\<lambda>j dt. dt\<lparr>weight_texel := (weight_texel dt)(j := (weight_texel dt j)(i := v)),
                          weights_flt := (weights_flt dt)(j := (weights_flt dt j)(i := 0))\<rparr>) ls d) j' i'
   = (if j' \<in> set ls \<and> i' = i then v else weight_texel d j' i')"
  by (induction ls arbitrary: d) auto

lemma fill_weight_tail_loop_tw:
  "texel_weights_texel (fold (\<lambda>j dt. dt\<lparr>weight_texel := (weight_texel dt)(j := (weight_texel dt j)(i := v)),
                          weights_flt := (weights_flt dt)(j := (weights_flt dt j)(i := 0))\<rparr>) ls d)
   = texel_weights_texel d"
  by (rule fold_preserve) simp

lemma fill_weight_body_wt:
  "weight_texel (fold (fill_weight_texel s i) ls d) j' i' =
     (if j' \<in> set ls \<and> i' = i then texels_of_weight s i j' else weight_texel d j' i')"
  by (induction ls arbitrary: d) (auto simp: fill_weight_texel_wt)

lemma fill_weight_wt:
  "weight_texel (fill_weight s i dt) j i' =
     (if i' = i \<and> 0 \<le> j \<and> j < texel_count_of_weight s i then texels_of_weight s i j
      else if i' = i \<and> texel_count_of_weight s i \<le> j \<and> j < max_texel_count_of_weight s
      then weight_texel (fold (fill_weight_texel s i) [0..texel_count_of_weight s i - 1]
             (dt\<lparr>weight_texel_count := (weight_texel_count dt)(i := u8 (texel_count_of_weight s i))\<rparr>))
             (texel_count_of_weight s i - 1) i
      else weight_texel dt j i')"
  by (auto simp: fill_weight_def Let_def fill_weight_tail_loop_wt fill_weight_body_wt)

lemma fill_weight_tw_other:
  assumes "i' \<noteq> i"
  shows "texel_weights_texel (fill_weight s i dt) i' = texel_weights_texel dt i'"
proof -
  have body: "texel_weights_texel (fold (fill_weight_texel s i) ls d) i' = texel_weights_texel d i'" for ls d
  proof (rule fold_preserve)
    fix x d' show "texel_weights_texel (fill_weight_texel s i x d') i' = texel_weights_texel d' i'"
      using fill_weight_texel_tw_other[of i' i _ x s d'] assms by (auto simp: fun_eq_iff)
  qed
  show ?thesis
    by (simp add: fill_weight_def Let_def fill_weight_tail_loop_tw body)
qed

lemma fill_weight_tw:
  assumes "0 \<le> j" "j < texel_count_of_weight s i" "0 \<le> k" "k \<le> 3"
      and "identity_slot dt i (texels_of_weight s i j) \<in> {0..3}"
  shows "texel_weights_texel (fill_weight s i dt) i j k = reordered dt i (texels_of_weight s i j) k"
proof -
  let ?t = "texels_of_weight s i j"
  let ?d1 = "dt\<lparr>weight_texel_count := (weight_texel_count dt)(i := u8 (texel_count_of_weight s i))\<rparr>"
  have side1: "texel_side ?d1 = texel_side dt" by (simp add: texel_side_def)
  have "texel_weights_texel (fold (fill_weight_texel s i) [0..texel_count_of_weight s i - 1] ?d1) i j k
        = reordered dt i ?t k"
  proof (rule fold_at[where R = "\<lambda>d. texel_side d = texel_side dt" and i = j])
    show "j \<in> set [0..texel_count_of_weight s i - 1]" using assms by simp
    show "texel_side ?d1 = texel_side dt" by (rule side1)
    show "texel_side (fill_weight_texel s i j' d) = texel_side dt" if "texel_side d = texel_side dt" for j' d
      using that by (simp add: fill_weight_texel_side)
    show "texel_weights_texel (fill_weight_texel s i j' d) i j k = texel_weights_texel d i j k"
      if "j' \<noteq> j" for j' d
      using fill_weight_texel_tw_other[of i i j j' s d] that by simp
    show "texel_weights_texel (fill_weight_texel s i j d) i j k = reordered dt i ?t k"
      if R: "texel_side d = texel_side dt" for d
    proof -
      have cells: "texel_cell d k' ?t = texel_cell dt k' ?t" for k'
        using R by (rule texel_side_cell)
      have sw: "identity_slot d i ?t = identity_slot dt i ?t"
        by (rule identity_slot_cong) (rule cells)
      have "texel_weights_texel (fill_weight_texel s i j d) i j k = reordered d i ?t k"
        using fill_weight_texel_tw[OF assms(3,4), of d i s j i j] assms(5) sw by simp
      also have "\<dots> = reordered dt i ?t k"
        using assms(3,4,5) sw by (intro reordered_cong) (simp_all add: cells)
      finally show ?thesis .
    qed
  qed
  then show ?thesis
    by (simp add: fill_weight_def Let_def fill_weight_tail_loop_tw)
qed

text \<open>Phase 4: the two tails.\<close>

lemma fill_texel_tail_weight_side:
  "weight_texel_count (fill_texel_tail round_up tpb dt) = weight_texel_count dt"
  "weight_texel (fill_texel_tail round_up tpb dt) = weight_texel dt"
  "texel_weights_texel (fill_texel_tail round_up tpb dt) = texel_weights_texel dt"
  unfolding fill_texel_tail_def Let_def
  by (rule fold_preserve, simp add: fold_preserve)+

lemma fill_texel_tail_cell:
  assumes "i < tpb"
  shows "texel_cell (fill_texel_tail round_up tpb dt) k i = texel_cell dt k i"
    and "texel_weight_count (fill_texel_tail round_up tpb dt) i = texel_weight_count dt i"
proof -
  have inner: "texel_cell (fold (\<lambda>j dt.
                    dt\<lparr>texel_weights_float_4t :=
                          (texel_weights_float_4t dt)(j := (texel_weights_float_4t dt j)(i' := 0)),
                       texel_weights_4t := (texel_weights_4t dt)(j := (texel_weights_4t dt j)(i' := 0)),
                       texel_weights_int_4t :=
                          (texel_weights_int_4t dt)(j := (texel_weights_int_4t dt j)(i' := 0))\<rparr>) ls d) k i
               = texel_cell d k i \<and>
               texel_weight_count (fold (\<lambda>j dt.
                    dt\<lparr>texel_weights_float_4t :=
                          (texel_weights_float_4t dt)(j := (texel_weights_float_4t dt j)(i' := 0)),
                       texel_weights_4t := (texel_weights_4t dt)(j := (texel_weights_4t dt j)(i' := 0)),
                       texel_weights_int_4t :=
                          (texel_weights_int_4t dt)(j := (texel_weights_int_4t dt j)(i' := 0))\<rparr>) ls d)
               = texel_weight_count d"
    if "i' \<noteq> i" for i' ls d
    using that by (induction ls arbitrary: d) (auto simp: texel_cell_def)
  have "texel_cell (fill_texel_tail round_up tpb dt) k i = texel_cell dt k i \<and>
        texel_weight_count (fill_texel_tail round_up tpb dt) i = texel_weight_count dt i"
    unfolding fill_texel_tail_def Let_def
  proof (rule fold_frame[where g = "\<lambda>d. (texel_cell d k i, texel_weight_count d i)", simplified prod.inject])
    fix j d assume "j \<in> set [tpb..round_up tpb - 1]"
    with assms have ji: "j \<noteq> i" by auto
    show "texel_cell (fold (\<lambda>ja dt.
                    dt\<lparr>texel_weights_float_4t :=
                          (texel_weights_float_4t dt)(ja := (texel_weights_float_4t dt ja)(j := 0)),
                       texel_weights_4t := (texel_weights_4t dt)(ja := (texel_weights_4t dt ja)(j := 0)),
                       texel_weights_int_4t :=
                          (texel_weights_int_4t dt)(ja := (texel_weights_int_4t dt ja)(j := 0))\<rparr>) [0..3]
                   (d\<lparr>texel_weight_count := (texel_weight_count d)(j := 0)\<rparr>)) k i = texel_cell d k i \<and>
          texel_weight_count (fold (\<lambda>ja dt.
                    dt\<lparr>texel_weights_float_4t :=
                          (texel_weights_float_4t dt)(ja := (texel_weights_float_4t dt ja)(j := 0)),
                       texel_weights_4t := (texel_weights_4t dt)(ja := (texel_weights_4t dt ja)(j := 0)),
                       texel_weights_int_4t :=
                          (texel_weights_int_4t dt)(ja := (texel_weights_int_4t dt ja)(j := 0))\<rparr>) [0..3]
                   (d\<lparr>texel_weight_count := (texel_weight_count d)(j := 0)\<rparr>)) i = texel_weight_count d i"
      using inner[OF ji, of "[0..3]" "d\<lparr>texel_weight_count := (texel_weight_count d)(j := 0)\<rparr>"] ji
      by (simp add: texel_cell_def)
  qed
  then show "texel_cell (fill_texel_tail round_up tpb dt) k i = texel_cell dt k i"
    and "texel_weight_count (fill_texel_tail round_up tpb dt) i = texel_weight_count dt i"
    by simp_all
qed

lemma fill_weight_tail_texel_side:
  "texel_side (fill_weight_tail round_up s wpb dt) = texel_side dt"
  "texel_weights_texel (fill_weight_tail round_up s wpb dt) = texel_weights_texel dt"
  unfolding fill_weight_tail_def Let_def
  by (rule fold_preserve, simp add: fold_preserve texel_side_def)+

lemma fill_weight_tail_column:
  assumes "i < wpb"
  shows "weight_texel_count (fill_weight_tail round_up s wpb dt) i = weight_texel_count dt i"
    and "weight_texel (fill_weight_tail round_up s wpb dt) j i = weight_texel dt j i"
proof -
  have inner: "weight_texel (fold (\<lambda>j dt.
                    dt\<lparr>weight_texel := (weight_texel dt)(j := (weight_texel dt j)(i' := v)),
                       weights_flt := (weights_flt dt)(j := (weights_flt dt j)(i' := 0))\<rparr>) ls d) j i
               = weight_texel d j i \<and>
               weight_texel_count (fold (\<lambda>j dt.
                    dt\<lparr>weight_texel := (weight_texel dt)(j := (weight_texel dt j)(i' := v)),
                       weights_flt := (weights_flt dt)(j := (weights_flt dt j)(i' := 0))\<rparr>) ls d)
               = weight_texel_count d"
    if "i' \<noteq> i" for i' v ls d
    using that by (induction ls arbitrary: d) auto
  have "weight_texel_count (fill_weight_tail round_up s wpb dt) i = weight_texel_count dt i \<and>
        weight_texel (fill_weight_tail round_up s wpb dt) j i = weight_texel dt j i"
    unfolding fill_weight_tail_def Let_def
  proof (rule fold_frame[where g = "\<lambda>d. (weight_texel_count d i, weight_texel d j i)", simplified prod.inject])
    fix i' d assume "i' \<in> set [wpb..round_up wpb - 1]"
    with assms have ji: "i' \<noteq> i" by auto
    show "weight_texel_count (fold (\<lambda>j d'.
                    d'\<lparr>weight_texel := (weight_texel d')(j := (weight_texel d' j)(i' :=
                          weight_texel dt (texel_count_of_weight s (wpb - 1) - 1) (wpb - 1))),
                       weights_flt := (weights_flt d')(j := (weights_flt d' j)(i' := 0))\<rparr>)
                  [0..max_texel_count_of_weight s - 1]
                  (d\<lparr>weight_texel_count := (weight_texel_count d)(i' := 0)\<rparr>)) i = weight_texel_count d i \<and>
          weight_texel (fold (\<lambda>j d'.
                    d'\<lparr>weight_texel := (weight_texel d')(j := (weight_texel d' j)(i' :=
                          weight_texel dt (texel_count_of_weight s (wpb - 1) - 1) (wpb - 1))),
                       weights_flt := (weights_flt d')(j := (weights_flt d' j)(i' := 0))\<rparr>)
                  [0..max_texel_count_of_weight s - 1]
                  (d\<lparr>weight_texel_count := (weight_texel_count d)(i' := 0)\<rparr>)) j i = weight_texel d j i"
      using inner[OF ji, of _ "[0..max_texel_count_of_weight s - 1]"
          "d\<lparr>weight_texel_count := (weight_texel_count d)(i' := 0)\<rparr>"] ji
      by simp
  qed
  then show "weight_texel_count (fill_weight_tail round_up s wpb dt) i = weight_texel_count dt i"
    and "weight_texel (fill_weight_tail round_up s wpb dt) j i = weight_texel dt j i"
    by simp_all
qed

text \<open>The four phases together.\<close>

lemma fill_weights_side: "texel_side (fold (fill_weight s) ls d) = texel_side d"
  by (rule fold_preserve) (rule fill_weight_side)

lemma builder_table:
  fixes round_up s tpb wpb dt2 a b c d e
  defines "dt3 \<equiv> fold (fill_weight s) [0..wpb - 1] dt2"
  defines "dt \<equiv> (fill_weight_tail round_up s wpb (fill_texel_tail round_up tpb dt3))
                   \<lparr>dt_texel_count := a, weight_count := b, weight_x := c, weight_y := d, weight_z := e\<rparr>"
  shows "i < tpb \<Longrightarrow> texel_cell dt k i = texel_cell dt2 k i"
    and "i < tpb \<Longrightarrow> texel_weight_count dt i = texel_weight_count dt2 i"
    and "0 \<le> j \<Longrightarrow> j < wpb \<Longrightarrow> weight_texel_count dt j = u8 (texel_count_of_weight s j)"
    and "0 \<le> j \<Longrightarrow> j < wpb \<Longrightarrow> 0 \<le> t \<Longrightarrow> t < texel_count_of_weight s j \<Longrightarrow>
         weight_texel dt t j = texels_of_weight s j t"
    and "0 \<le> j \<Longrightarrow> j < wpb \<Longrightarrow> 0 \<le> t \<Longrightarrow> t < texel_count_of_weight s j \<Longrightarrow>
         0 \<le> k \<Longrightarrow> k \<le> 3 \<Longrightarrow> texels_of_weight s j t < tpb \<Longrightarrow>
         identity_slot dt j (texels_of_weight s j t) \<in> {0..3} \<Longrightarrow>
         texel_weights_texel dt j t k = reordered dt j (texels_of_weight s j t) k"
proof -
  have side3: "texel_side dt3 = texel_side dt2"
    unfolding dt3_def by (rule fill_weights_side)
  have cell_upd: "texel_cell (x\<lparr>dt_texel_count := a, weight_count := b, weight_x := c, weight_y := d, weight_z := e\<rparr>) k' i'
                  = texel_cell x k' i'" for x k' i'
    by (simp add: texel_cell_def)
  show cells: "texel_cell dt k i = texel_cell dt2 k i" if "i < tpb" for k i
    unfolding dt_def cell_upd
    using texel_side_cell[OF fill_weight_tail_texel_side(1), of round_up s wpb "fill_texel_tail round_up tpb dt3" k i]
      fill_texel_tail_cell(1)[OF that, of round_up dt3 k] texel_side_cell[OF side3, of k i]
    by simp
  show "texel_weight_count dt i = texel_weight_count dt2 i" if "i < tpb"
  proof -
    have "texel_weight_count (fill_weight_tail round_up s wpb (fill_texel_tail round_up tpb dt3))
          = texel_weight_count (fill_texel_tail round_up tpb dt3)"
      using fill_weight_tail_texel_side(1)[of round_up s wpb "fill_texel_tail round_up tpb dt3"]
      by (simp add: texel_side_def)
    moreover have "texel_weight_count dt3 = texel_weight_count dt2"
      using side3 by (simp add: texel_side_def)
    ultimately show ?thesis
      unfolding dt_def using fill_texel_tail_cell(2)[OF that, of round_up dt3] by simp
  qed
  have wt3: "weight_texel_count dt j = weight_texel_count dt3 j" "weight_texel dt t j = weight_texel dt3 t j"
    if "j < wpb" for j t
    unfolding dt_def
    using fill_weight_tail_column[OF that, of round_up s "fill_texel_tail round_up tpb dt3"]
    by (simp_all add: fill_texel_tail_weight_side)
  have tw3: "texel_weights_texel dt = texel_weights_texel dt3"
    unfolding dt_def by (simp add: fill_weight_tail_texel_side(2) fill_texel_tail_weight_side)
  show "weight_texel_count dt j = u8 (texel_count_of_weight s j)" if j: "0 \<le> j" "j < wpb"
  proof -
    have "weight_texel_count dt3 j = u8 (texel_count_of_weight s j)"
      unfolding dt3_def
      by (rule fold_at[where R = "\<lambda>_. True" and i = j]) (use j in \<open>auto simp: fill_weight_count\<close>)
    then show ?thesis by (simp add: wt3(1)[OF j(2)])
  qed
  show "weight_texel dt t j = texels_of_weight s j t"
    if j: "0 \<le> j" "j < wpb" and t: "0 \<le> t" "t < texel_count_of_weight s j"
  proof -
    have "weight_texel dt3 t j = texels_of_weight s j t"
      unfolding dt3_def
      by (rule fold_at[where R = "\<lambda>_. True" and i = j]) (use j t in \<open>auto simp: fill_weight_wt\<close>)
    then show ?thesis by (simp add: wt3(2)[OF j(2)])
  qed
  show "texel_weights_texel dt j t k = reordered dt j (texels_of_weight s j t) k"
    if j: "0 \<le> j" "j < wpb" and t: "0 \<le> t" "t < texel_count_of_weight s j"
      and k: "0 \<le> k" "k \<le> 3" and tex: "texels_of_weight s j t < tpb"
      and sw: "identity_slot dt j (texels_of_weight s j t) \<in> {0..3}"
  proof -
    let ?t = "texels_of_weight s j t"
    have c2: "texel_cell dt k' ?t = texel_cell dt2 k' ?t" for k'
      by (rule cells[OF tex])
    have sw2: "identity_slot dt j ?t = identity_slot dt2 j ?t"
      by (rule identity_slot_cong) (rule c2)
    have "texel_weights_texel dt3 j t k = reordered dt2 j ?t k"
      unfolding dt3_def
    proof (rule fold_at[where R = "\<lambda>x. texel_side x = texel_side dt2" and i = j])
      show "j \<in> set [0..wpb - 1]" using j by simp
      show "texel_side dt2 = texel_side dt2" ..
      show "texel_side (fill_weight s j' x) = texel_side dt2" if "texel_side x = texel_side dt2" for j' x
        using that by (simp add: fill_weight_side)
      show "texel_weights_texel (fill_weight s j' x) j t k = texel_weights_texel x j t k" if "j' \<noteq> j" for j' x
        using fill_weight_tw_other[of j j' s x] that by simp
      show "texel_weights_texel (fill_weight s j x) j t k = reordered dt2 j ?t k"
        if R: "texel_side x = texel_side dt2" for x
      proof -
        have cx: "texel_cell x k' ?t = texel_cell dt2 k' ?t" for k'
          using R by (rule texel_side_cell)
        have swx: "identity_slot x j ?t = identity_slot dt2 j ?t"
          by (rule identity_slot_cong) (rule cx)
        have "texel_weights_texel (fill_weight s j x) j t k = reordered x j ?t k"
          using sw sw2 swx by (intro fill_weight_tw t k) simp
        also have "\<dots> = reordered dt2 j ?t k"
          using sw sw2 swx k by (intro reordered_cong) (simp_all add: cx)
        finally show ?thesis .
      qed
    qed
    also have "\<dots> = reordered dt j ?t k"
      using sw sw2 k by (intro reordered_cong[symmetric]) (simp_all add: c2)
    finally show ?thesis by (simp add: tw3)
  qed
qed

end
